theory Spec2Isabelle
  imports Complex_Main
begin

section \<open>Numbers\<close>

text \<open>
  The source computes with JavaScript numbers. Counts (list lengths, vertex, edge and face
  counts) are modelled as \<open>int\<close>, thresholds as exact rationals (the decimal literal
  \<open>0.833\<close> is \<open>833 / 1000\<close>). A division whose divisor may be zero does not
  raise in JavaScript: it yields an infinity or NaN, which the later \<open>Math.min\<close>,
  \<open>Math.max\<close>, \<open>Math.ceil\<close> and comparisons absorb. These values are written
  out as \<open>jsnum\<close>. Rounding of binary floating point is not modelled: a product such as
  \<open>25 * 0.28\<close>, which a double rounds to a value just above 7, is exactly 7 here. On
  every entry of the catalog the exact product and the double have the same ceiling.
\<close>

datatype jsnum = Num rat | PosInf | NegInf | NaN

definition js_div :: "rat \<Rightarrow> rat \<Rightarrow> jsnum" where
  "js_div a b =
     (if b \<noteq> 0 then Num (a / b)
      else if 0 < a then PosInf
      else if a < 0 then NegInf
      else NaN)"

fun js_mul :: "rat \<Rightarrow> jsnum \<Rightarrow> jsnum" where
  "js_mul a (Num b) = Num (a * b)"
| "js_mul a PosInf = (if 0 < a then PosInf else if a < 0 then NegInf else NaN)"
| "js_mul a NegInf = (if 0 < a then NegInf else if a < 0 then PosInf else NaN)"
| "js_mul a NaN = NaN"

fun js_min :: "rat \<Rightarrow> jsnum \<Rightarrow> jsnum" where
  "js_min a (Num b) = Num (min a b)"
| "js_min a PosInf = Num a"
| "js_min a NegInf = NegInf"
| "js_min a NaN = NaN"

fun js_max :: "rat \<Rightarrow> jsnum \<Rightarrow> jsnum" where
  "js_max a (Num b) = Num (max a b)"
| "js_max a PosInf = PosInf"
| "js_max a NegInf = Num a"
| "js_max a NaN = NaN"

fun js_ceil :: "jsnum \<Rightarrow> jsnum" where
  "js_ceil (Num b) = Num (of_int \<lceil>b\<rceil>)"
| "js_ceil x = x"

fun js_floor :: "jsnum \<Rightarrow> jsnum" where
  "js_floor (Num b) = Num (of_int \<lfloor>b\<rfloor>)"
| "js_floor x = x"

text \<open>\<open>js_ge x c\<close> is the comparison \<open>x >= c\<close>; every comparison with NaN is false.\<close>

fun js_ge :: "jsnum \<Rightarrow> rat \<Rightarrow> bool" where
  "js_ge (Num b) c = (c \<le> b)"
| "js_ge PosInf c = True"
| "js_ge NegInf c = False"
| "js_ge NaN c = False"

text \<open>\<open>js_le_of c x\<close> is the comparison \<open>c >= x\<close> of a finite number with a result.\<close>

fun js_le_of :: "rat \<Rightarrow> jsnum \<Rightarrow> bool" where
  "js_le_of c (Num b) = (b \<le> c)"
| "js_le_of c PosInf = False"
| "js_le_of c NegInf = True"
| "js_le_of c NaN = False"

section \<open>Shape catalog (geometric-types.ts)\<close>

text \<open>
  \<open>GeometricType\<close> is a string enum: at run time a shape identifier is a string, and
  \<open>getGeometricShape\<close> guards against strings that are not keys of the table.
  The tables are plain objects, so a lookup also finds the members every object inherits;
  \<open>objectPrototypeNames\<close> lists their names. Each of them is a truthy value without
  enumerable entries of its own.
\<close>

definition objectPrototypeNames :: "string list" where
  "objectPrototypeNames =
     [''constructor'', ''hasOwnProperty'', ''isPrototypeOf'', ''propertyIsEnumerable'',
      ''toLocaleString'', ''toString'', ''valueOf'', ''__proto__'',
      ''__defineGetter__'', ''__defineSetter__'', ''__lookupGetter__'', ''__lookupSetter__'']"

type_synonym GeometricType = string

datatype context_kind = Local | Federation | Global

record GeometricShape =
  shape_type :: GeometricType
  shape_name :: string
  vertices :: int
  edges :: int
  faces :: int
  threshold :: rat
  dual :: "GeometricType option"
  isSelfDual :: bool
  dimension :: int
  schlaefli :: "string option"
  shape_context :: context_kind
  description :: string

definition GEOMETRIC_SHAPES_entries :: "(GeometricType \<times> GeometricShape) list" where
  "GEOMETRIC_SHAPES_entries = [
   (''POINT'',
     \<lparr>shape_type = ''POINT'', shape_name = ''Point'', vertices = 1, edges = 0, faces = 0,
      threshold = 1, dual = None, isSelfDual = True, dimension = 0,
      schlaefli = None, shape_context = Local,
      description = ''0D point - unanimous consensus required''\<rparr>),
   (''LINE'',
     \<lparr>shape_type = ''LINE'', shape_name = ''Line'', vertices = 2, edges = 1, faces = 0,
      threshold = 1, dual = None, isSelfDual = True, dimension = 1,
      schlaefli = None, shape_context = Local,
      description = ''1D line - bilateral consensus''\<rparr>),
   (''TRIANGLE'',
     \<lparr>shape_type = ''TRIANGLE'', shape_name = ''Triangle'', vertices = 3, edges = 3, faces = 1,
      threshold = 1, dual = None, isSelfDual = True, dimension = 2,
      schlaefli = None, shape_context = Local,
      description = ''2D triangle - trilateral consensus''\<rparr>),
   (''SQUARE'',
     \<lparr>shape_type = ''SQUARE'', shape_name = ''Square'', vertices = 4, edges = 4, faces = 1,
      threshold = 75 / 100, dual = Some ''SQUARE'', isSelfDual = True, dimension = 2,
      schlaefli = None, shape_context = Local,
      description = ''2D square - quadrilateral consensus''\<rparr>),
   (''TETRAHEDRON'',
     \<lparr>shape_type = ''TETRAHEDRON'', shape_name = ''Tetrahedron'', vertices = 4, edges = 6, faces = 4,
      threshold = 1, dual = Some ''TETRAHEDRON'', isSelfDual = True, dimension = 3,
      schlaefli = Some ''{3,3}'', shape_context = Local,
      description = ''3D tetrahedron - MUST (unanimous)''\<rparr>),
   (''CUBE'',
     \<lparr>shape_type = ''CUBE'', shape_name = ''Cube'', vertices = 8, edges = 12, faces = 6,
      threshold = 5 / 10, dual = Some ''OCTAHEDRON'', isSelfDual = False, dimension = 3,
      schlaefli = Some ''{4,3}'', shape_context = Local,
      description = ''3D cube - MAY (majority)''\<rparr>),
   (''OCTAHEDRON'',
     \<lparr>shape_type = ''OCTAHEDRON'', shape_name = ''Octahedron'', vertices = 6, edges = 12, faces = 8,
      threshold = 833 / 1000, dual = Some ''CUBE'', isSelfDual = False, dimension = 3,
      schlaefli = Some ''{3,4}'', shape_context = Local,
      description = ''3D octahedron - SHOULD (strong consensus)''\<rparr>),
   (''DODECAHEDRON'',
     \<lparr>shape_type = ''DODECAHEDRON'', shape_name = ''Dodecahedron'', vertices = 20, edges = 30, faces = 12,
      threshold = 6 / 10, dual = Some ''ICOSAHEDRON'', isSelfDual = False, dimension = 3,
      schlaefli = Some ''{5,3}'', shape_context = Local,
      description = ''3D dodecahedron - committee consensus''\<rparr>),
   (''ICOSAHEDRON'',
     \<lparr>shape_type = ''ICOSAHEDRON'', shape_name = ''Icosahedron'', vertices = 12, edges = 30, faces = 20,
      threshold = 75 / 100, dual = Some ''DODECAHEDRON'', isSelfDual = False, dimension = 3,
      schlaefli = Some ''{3,5}'', shape_context = Local,
      description = ''3D icosahedron - high consensus''\<rparr>),
   (''FIVE_CELL'',
     \<lparr>shape_type = ''FIVE_CELL'', shape_name = ''5-cell'', vertices = 5, edges = 10, faces = 10,
      threshold = 1, dual = Some ''FIVE_CELL'', isSelfDual = True, dimension = 4,
      schlaefli = Some ''{3,3,3}'', shape_context = Federation,
      description = ''4D 5-cell - MUST_FEDERATION (unanimous)''\<rparr>),
   (''EIGHT_CELL'',
     \<lparr>shape_type = ''EIGHT_CELL'', shape_name = ''8-cell'', vertices = 16, edges = 32, faces = 24,
      threshold = 5 / 10, dual = Some ''SIXTEEN_CELL'', isSelfDual = False, dimension = 4,
      schlaefli = Some ''{4,3,3}'', shape_context = Federation,
      description = ''4D 8-cell - MAY_FEDERATION (majority)''\<rparr>),
   (''SIXTEEN_CELL'',
     \<lparr>shape_type = ''SIXTEEN_CELL'', shape_name = ''16-cell'', vertices = 8, edges = 24, faces = 32,
      threshold = 75 / 100, dual = Some ''EIGHT_CELL'', isSelfDual = False, dimension = 4,
      schlaefli = Some ''{3,3,4}'', shape_context = Federation,
      description = ''4D 16-cell - SHOULD_FEDERATION (strong consensus)''\<rparr>),
   (''TWENTY_FOUR_CELL'',
     \<lparr>shape_type = ''TWENTY_FOUR_CELL'', shape_name = ''24-cell'', vertices = 24, edges = 96, faces = 96,
      threshold = 833 / 1000, dual = Some ''TWENTY_FOUR_CELL'', isSelfDual = True, dimension = 4,
      schlaefli = Some ''{3,4,3}'', shape_context = Federation,
      description = ''4D 24-cell - SHOULD_FEDERATION (strong consensus)''\<rparr>),
   (''SIX_HUNDRED_CELL'',
     \<lparr>shape_type = ''SIX_HUNDRED_CELL'', shape_name = ''600-cell'', vertices = 120, edges = 720, faces = 1200,
      threshold = 6 / 10, dual = Some ''SIX_HUNDRED_CELL'', isSelfDual = False, dimension = 4,
      schlaefli = Some ''{3,3,5}'', shape_context = Federation,
      description = ''4D 600-cell - large federation consensus''\<rparr>),
   (''TRUNCATED_TETRAHEDRON'',
     \<lparr>shape_type = ''TRUNCATED_TETRAHEDRON'', shape_name = ''Truncated Tetrahedron'', vertices = 12, edges = 18, faces = 8,
      threshold = 1, dual = None, isSelfDual = False, dimension = 3,
      schlaefli = None, shape_context = Global,
      description = ''3D truncated tetrahedron - MUST_GLOBAL (unanimous)''\<rparr>),
   (''CUBOCTAHEDRON'',
     \<lparr>shape_type = ''CUBOCTAHEDRON'', shape_name = ''Cuboctahedron'', vertices = 12, edges = 24, faces = 14,
      threshold = 833 / 1000, dual = None, isSelfDual = False, dimension = 3,
      schlaefli = None, shape_context = Global,
      description = ''3D cuboctahedron - SHOULD_GLOBAL (strong consensus)''\<rparr>),
   (''TRUNCATED_CUBE'',
     \<lparr>shape_type = ''TRUNCATED_CUBE'', shape_name = ''Truncated Cube'', vertices = 24, edges = 36, faces = 14,
      threshold = 5 / 10, dual = None, isSelfDual = False, dimension = 3,
      schlaefli = None, shape_context = Global,
      description = ''3D truncated cube - MAY_GLOBAL (majority)''\<rparr>),
   (''TRUNCATED_OCTAHEDRON'',
     \<lparr>shape_type = ''TRUNCATED_OCTAHEDRON'', shape_name = ''Truncated Octahedron'', vertices = 24, edges = 36, faces = 14,
      threshold = 75 / 100, dual = None, isSelfDual = False, dimension = 3,
      schlaefli = None, shape_context = Global,
      description = ''3D truncated octahedron - committee consensus''\<rparr>),
   (''RHOMBICUBOCTAHEDRON'',
     \<lparr>shape_type = ''RHOMBICUBOCTAHEDRON'', shape_name = ''Rhombicuboctahedron'', vertices = 24, edges = 48, faces = 26,
      threshold = 625 / 1000, dual = None, isSelfDual = False, dimension = 3,
      schlaefli = None, shape_context = Global,
      description = ''3D rhombicuboctahedron - balanced consensus''\<rparr>),
   (''TRUNCATED_CUBOCTAHEDRON'',
     \<lparr>shape_type = ''TRUNCATED_CUBOCTAHEDRON'', shape_name = ''Truncated Cuboctahedron'', vertices = 48, edges = 72, faces = 26,
      threshold = 5 / 10, dual = None, isSelfDual = False, dimension = 3,
      schlaefli = None, shape_context = Global,
      description = ''3D truncated cuboctahedron - MAY_GLOBAL (majority)''\<rparr>),
   (''SNUB_CUBE'',
     \<lparr>shape_type = ''SNUB_CUBE'', shape_name = ''Snub Cube'', vertices = 24, edges = 60, faces = 38,
      threshold = 75 / 100, dual = None, isSelfDual = False, dimension = 3,
      schlaefli = None, shape_context = Global,
      description = ''3D snub cube - committee consensus''\<rparr>),
   (''ICOSIDODECAHEDRON'',
     \<lparr>shape_type = ''ICOSIDODECAHEDRON'', shape_name = ''Icosidodecahedron'', vertices = 30, edges = 60, faces = 32,
      threshold = 8 / 10, dual = None, isSelfDual = False, dimension = 3,
      schlaefli = None, shape_context = Global,
      description = ''3D icosidodecahedron - strong consensus''\<rparr>),
   (''TRUNCATED_DODECAHEDRON'',
     \<lparr>shape_type = ''TRUNCATED_DODECAHEDRON'', shape_name = ''Truncated Dodecahedron'', vertices = 60, edges = 90, faces = 32,
      threshold = 5 / 10, dual = None, isSelfDual = False, dimension = 3,
      schlaefli = None, shape_context = Global,
      description = ''3D truncated dodecahedron - MAY_GLOBAL (majority)''\<rparr>),
   (''TRUNCATED_ICOSAHEDRON'',
     \<lparr>shape_type = ''TRUNCATED_ICOSAHEDRON'', shape_name = ''Truncated Icosahedron'', vertices = 60, edges = 90, faces = 32,
      threshold = 75 / 100, dual = None, isSelfDual = False, dimension = 3,
      schlaefli = None, shape_context = Global,
      description = ''3D truncated icosahedron - committee consensus''\<rparr>),
   (''RHOMBICOSIDODECAHEDRON'',
     \<lparr>shape_type = ''RHOMBICOSIDODECAHEDRON'', shape_name = ''Rhombicosidodecahedron'', vertices = 60, edges = 120, faces = 62,
      threshold = 6 / 10, dual = None, isSelfDual = False, dimension = 3,
      schlaefli = None, shape_context = Global,
      description = ''3D rhombicosidodecahedron - balanced consensus''\<rparr>),
   (''TRUNCATED_ICOSIDODECAHEDRON'',
     \<lparr>shape_type = ''TRUNCATED_ICOSIDODECAHEDRON'', shape_name = ''Truncated Icosidodecahedron'', vertices = 120, edges = 180, faces = 62,
      threshold = 5 / 10, dual = None, isSelfDual = False, dimension = 3,
      schlaefli = None, shape_context = Global,
      description = ''3D truncated icosidodecahedron - MAY_GLOBAL (majority)''\<rparr>),
   (''SNUB_DODECAHEDRON'',
     \<lparr>shape_type = ''SNUB_DODECAHEDRON'', shape_name = ''Snub Dodecahedron'', vertices = 60, edges = 150, faces = 92,
      threshold = 75 / 100, dual = None, isSelfDual = False, dimension = 3,
      schlaefli = None, shape_context = Global,
      description = ''3D snub dodecahedron - committee consensus''\<rparr>)]"

definition GEOMETRIC_SHAPES :: "GeometricType \<rightharpoonup> GeometricShape" where
  "GEOMETRIC_SHAPES = map_of GEOMETRIC_SHAPES_entries"

text \<open>
  Exceptions of the source are values: each constructor but the last stands for one
  \<open>throw new Error\<close> and carries what the message interpolates. \<open>InheritedMember t\<close> is
  no exception of the source: it marks a lookup of \<open>GEOMETRIC_SHAPES\<close> that found an
  inherited member. The source does not throw there and goes on with that member in the
  place of a shape; the model does not follow it, and a result \<open>Inl (InheritedMember t)\<close>
  says nothing about what the source returns.
\<close>

datatype error =
    UnknownGeometricType GeometricType
  | NoPartitionCertificates
  | InvalidCertificatesFound nat
  | InconsistentGeometricTypes
  | NoDualAvailable GeometricType
  | InheritedMember GeometricType

definition getGeometricShape :: "GeometricType \<Rightarrow> error + GeometricShape" where
  "getGeometricShape t =
     (case GEOMETRIC_SHAPES t of
        Some shape \<Rightarrow> Inr shape
      | None \<Rightarrow>
          if t \<in> set objectPrototypeNames then Inl (InheritedMember t)
          else Inl (UnknownGeometricType t))"

text \<open>\<open>getDual\<close> returns \<open>null\<close> (here \<open>None\<close>) for a shape without a dual; the test
  \<open>if (shape.dual)\<close> also rejects the empty string.\<close>

definition getDual :: "GeometricShape \<Rightarrow> error + GeometricShape option" where
  "getDual shape =
     (if isSelfDual shape then Inr (Some shape)
      else case dual shape of
             None \<Rightarrow> Inr None
           | Some d \<Rightarrow>
               if d = [] then Inr None
               else (case getGeometricShape d of
                       Inl e \<Rightarrow> Inl e
                     | Inr s \<Rightarrow> Inr (Some s)))"

definition calculateRequiredAgreement :: "GeometricShape \<Rightarrow> int" where
  "calculateRequiredAgreement shape = \<lceil>of_int (vertices shape) * threshold shape\<rceil>"

definition isValidForConsensus :: "GeometricShape \<Rightarrow> int \<Rightarrow> bool" where
  "isValidForConsensus shape agreesCount =
     (let required = calculateRequiredAgreement shape in agreesCount \<ge> required)"

section \<open>Connectivity analyzer (betti-numbers.ts)\<close>

text \<open>The \<open>connected\<close> set of a vertex is created empty and never read; an edge's
  identifier \<open>consensus-edge-i-j\<close> is kept as the index pair it is rendered from.\<close>

record Vertex =
  vertex_id :: string
  vertex_name :: string
  connected :: "string list"

record Edge =
  edge_id :: "nat \<times> nat"
  from_id :: string
  to_id :: string

record BettiNumbers =
  beta_0 :: int
  beta_1 :: int
  beta_2 :: int

text \<open>\<open>vertices.forEach((v, i) => vertexIndex.set(v.id, i))\<close>: a later vertex with the
  same identifier overwrites the earlier index.\<close>

definition setVertexIndex :: "Vertex \<times> nat \<Rightarrow> (string \<rightharpoonup> nat) \<Rightarrow> (string \<rightharpoonup> nat)" where
  "setVertexIndex p m = m(vertex_id (fst p) \<mapsto> snd p)"

definition vertexIndexMap :: "Vertex list \<Rightarrow> (string \<rightharpoonup> nat)" where
  "vertexIndexMap vs = fold setVertexIndex (zip vs [0..<length vs]) Map.empty"

text \<open>The body of \<open>edges.forEach\<close> in \<open>buildAdjacencyMatrix\<close>: an edge with an
  endpoint that is no vertex is skipped.\<close>

definition markEdge :: "(string \<rightharpoonup> nat) \<Rightarrow> Edge \<Rightarrow> nat list list \<Rightarrow> nat list list" where
  "markEdge vertexIndex edge matrix =
     (case vertexIndex (from_id edge) of
        None \<Rightarrow> matrix
      | Some fromIndex \<Rightarrow>
          (case vertexIndex (to_id edge) of
             None \<Rightarrow> matrix
           | Some toIndex \<Rightarrow>
               (let m1 = matrix[fromIndex := (matrix ! fromIndex)[toIndex := 1]]
                in m1[toIndex := (m1 ! toIndex)[fromIndex := 1]])))"

definition buildAdjacencyMatrix :: "Vertex list \<Rightarrow> Edge list \<Rightarrow> nat list list" where
  "buildAdjacencyMatrix vs es =
     (let n = length vs;
          matrix0 = replicate n (replicate n (0::nat));
          vertexIndex = vertexIndexMap vs
      in fold (markEdge vertexIndex) es matrix0)"

text \<open>
  The recursive depth-first search. The recursion is not structural, so the model carries
  fuel that bounds the depth of nested calls; \<open>None\<close> means the fuel ran out. Every call
  below a first one is on an unvisited vertex and marks it, so the number of vertices is
  enough fuel (lemma \<open>dfs_returns\<close>).
\<close>

fun dfs :: "nat \<Rightarrow> nat \<Rightarrow> nat list list \<Rightarrow> bool list \<Rightarrow> bool list option" where
  "dfs 0 vertex adjacency visited = None"
| "dfs (Suc fuel) vertex adjacency visited =
     fold (\<lambda>i acc.
             case acc of
               None \<Rightarrow> None
             | Some vis \<Rightarrow>
                 if adjacency ! vertex ! i = 1 \<and> \<not> vis ! i
                 then dfs fuel i adjacency vis
                 else Some vis)
          [0..<length (adjacency ! vertex)]
          (Some (visited[vertex := True]))"

text \<open>One iteration of the loop of \<open>calculateConnectedComponents\<close> on the state
  \<open>(visited, components)\<close>.\<close>

definition countComponent ::
  "nat \<Rightarrow> nat list list \<Rightarrow> nat \<Rightarrow> (bool list \<times> nat) option \<Rightarrow> (bool list \<times> nat) option" where
  "countComponent n adjacency i acc =
     (case acc of
        None \<Rightarrow> None
      | Some (visited, components) \<Rightarrow>
          if \<not> visited ! i
          then (case dfs n i adjacency visited of
                  None \<Rightarrow> None
                | Some visited' \<Rightarrow> Some (visited', components + 1))
          else Some (visited, components))"

definition calculateConnectedComponents :: "Vertex list \<Rightarrow> nat list list \<Rightarrow> nat option" where
  "calculateConnectedComponents vs adjacency =
     (let n = length vs in
      map_option snd
        (fold (countComponent n adjacency) [0..<n] (Some (replicate n False, 0))))"

definition calculateCycles :: "Vertex list \<Rightarrow> Edge list \<Rightarrow> int option" where
  "calculateCycles vs es =
     (let V = int (length vs);
          E = int (length es)
      in case calculateConnectedComponents vs (buildAdjacencyMatrix vs es) of
           None \<Rightarrow> None
         | Some C \<Rightarrow> Some (max 0 (E - V + int C)))"

definition calculateVoids :: "Vertex list \<Rightarrow> Edge list \<Rightarrow> int" where
  "calculateVoids vs es = 0"

definition calculateBettiNumbers :: "Vertex list \<Rightarrow> Edge list \<Rightarrow> BettiNumbers option" where
  "calculateBettiNumbers vs es =
     (let n = length vs in
      if n = 0 then Some \<lparr>beta_0 = 0, beta_1 = 0, beta_2 = 0\<rparr>
      else
        let adjacency = buildAdjacencyMatrix vs es in
        case calculateConnectedComponents vs adjacency of
          None \<Rightarrow> None
        | Some b0 \<Rightarrow>
            (case calculateCycles vs es of
               None \<Rightarrow> None
             | Some b1 \<Rightarrow>
                 Some \<lparr>beta_0 = int b0, beta_1 = b1, beta_2 = calculateVoids vs es\<rparr>))"

definition detectPartition :: "BettiNumbers \<Rightarrow> bool" where
  "detectPartition betti = (beta_0 betti > 1)"

definition countPartitions :: "BettiNumbers \<Rightarrow> int" where
  "countPartitions betti = beta_0 betti"

section \<open>Consensus verifier (geometric-consensus.ts)\<close>

record DecisionVertex =
  dv_id :: string
  dv_name :: string
  agrees :: bool
  justification :: "string option"
  weight :: "rat option"

record PartitionFlag =
  isPartitioned :: bool
  partitionCount :: int

text \<open>
  The narrative texts are kept as the template that renders them together with the
  template's arguments. The certificate identifier and the timestamp come from the clock
  and a random source and are left out of the record, as is the \<open>message\<close> of a result,
  a rendering of the certificate's counts; nothing below reads them.
\<close>

datatype narrative =
    MathematicalProof GeometricShape int int bool
  | ErrorInVerification error
  | RecoveredFrom nat
  | RecoveryFailed error
  | DualRecoveryProof nat GeometricShape GeometricShape int int jsnum bool

record ConsensusCertificate =
  geometricType :: GeometricType
  shape :: GeometricShape
  cert_vertices :: "DecisionVertex list"
  agreesCount :: int
  requiredCount :: jsnum
  thresholdPercentage :: jsnum
  valid :: bool
  proof_text :: narrative
  bettiNumbers :: "BettiNumbers option"
  partitionInfo :: "PartitionFlag option"

record ConsensusResult =
  certificate :: ConsensusCertificate
  success :: bool

definition convertToVertices :: "DecisionVertex list \<Rightarrow> Vertex list" where
  "convertToVertices criteria =
     map (\<lambda>v. \<lparr>vertex_id = dv_id v, vertex_name = dv_name v, connected = []\<rparr>) criteria"

definition buildConsensusEdges :: "DecisionVertex list \<Rightarrow> Edge list" where
  "buildConsensusEdges criteria =
     concat (map (\<lambda>i.
        concat (map (\<lambda>j.
           let v1 = criteria ! i; v2 = criteria ! j in
           if agrees v1 = agrees v2
           then [\<lparr>edge_id = (i, j), from_id = dv_id v1, to_id = dv_id v2\<rparr>]
           else [])
          [i + 1..<length criteria]))
       [0..<length criteria])"

definition generateMathematicalProof :: "GeometricShape \<Rightarrow> int \<Rightarrow> int \<Rightarrow> bool \<Rightarrow> narrative" where
  "generateMathematicalProof shp agreesCnt requiredCnt vld =
     MathematicalProof shp agreesCnt requiredCnt vld"

text \<open>\<open>None\<close> is returned only if the depth-first search ran out of fuel.\<close>

definition createConsensusCertificate ::
  "DecisionVertex list \<Rightarrow> GeometricShape \<Rightarrow> ConsensusCertificate option" where
  "createConsensusCertificate criteria shp =
     (let agreesCnt = int (length (filter agrees criteria));
          requiredCnt = calculateRequiredAgreement shp;
          thresholdPct = threshold shp;
          vld = isValidForConsensus shp agreesCnt;
          vs = convertToVertices criteria;
          es = buildConsensusEdges criteria
      in case calculateBettiNumbers vs es of
           None \<Rightarrow> None
         | Some betti \<Rightarrow>
             Some \<lparr>geometricType = shape_type shp,
                   shape = shp,
                   cert_vertices = criteria,
                   agreesCount = agreesCnt,
                   requiredCount = Num (of_int requiredCnt),
                   thresholdPercentage = Num thresholdPct,
                   valid = vld,
                   proof_text = generateMathematicalProof shp agreesCnt requiredCnt vld,
                   bettiNumbers = Some betti,
                   partitionInfo =
                     Some \<lparr>isPartitioned = detectPartition betti,
                           partitionCount = countPartitions betti\<rparr>\<rparr>)"

text \<open>The error certificate resolves the shape once more for its \<open>shape\<close> field.\<close>

definition createErrorCertificate ::
  "DecisionVertex list \<Rightarrow> GeometricType \<Rightarrow> error \<Rightarrow> error + ConsensusCertificate" where
  "createErrorCertificate criteria gt err =
     (case getGeometricShape gt of
        Inl e \<Rightarrow> Inl e
      | Inr shp \<Rightarrow>
          Inr \<lparr>geometricType = gt,
               shape = shp,
               cert_vertices = criteria,
               agreesCount = 0,
               requiredCount = Num 0,
               thresholdPercentage = Num 0,
               valid = False,
               proof_text = ErrorInVerification err,
               bettiNumbers = None,
               partitionInfo = None\<rparr>)"

text \<open>
  \<open>verifyConsensus\<close>: the \<open>try\<close> block can throw only in \<open>getGeometricShape\<close>; the
  \<open>catch\<close> block builds the error certificate, and an exception thrown there leaves the
  function. \<open>Some (Inl e)\<close> is an exception that reaches the caller, \<open>Some (Inr r)\<close> a
  returned result.
\<close>

definition verifyConsensus ::
  "DecisionVertex list \<Rightarrow> GeometricType \<Rightarrow> string \<Rightarrow> (error + ConsensusResult) option" where
  "verifyConsensus criteria gt descr =
     (case getGeometricShape gt of
        Inr shp \<Rightarrow>
          (case createConsensusCertificate criteria shp of
             None \<Rightarrow> None
           | Some cert \<Rightarrow> Some (Inr \<lparr>certificate = cert, success = valid cert\<rparr>))
      | Inl err \<Rightarrow>
          (case createErrorCertificate criteria gt err of
             Inl e \<Rightarrow> Some (Inl e)
           | Inr cert \<Rightarrow> Some (Inr \<lparr>certificate = cert, success = False\<rparr>)))"

text \<open>\<open>mustLocal\<close> binds the verifier to the tetrahedron.\<close>

definition mustLocal :: "DecisionVertex list \<Rightarrow> (error + ConsensusResult) option" where
  "mustLocal criteria =
     verifyConsensus criteria ''TETRAHEDRON'' ''MUST (Local) - Unanimous consensus required''"

section \<open>Partition detector (partition-detection.ts)\<close>

text \<open>The per-shape decomposition tables. \<open>Object.entries\<close> lists integer keys in
  ascending order, which is the order they are written in.\<close>

definition decompositionMap_entries ::
  "(GeometricType \<times> (int \<times> GeometricType) list) list" where
  "decompositionMap_entries = [
   (''CUBE'', [(2, ''TETRAHEDRON''), (4, ''TRIANGLE''), (8, ''POINT'')]),
   (''OCTAHEDRON'', [(2, ''TRIANGLE''), (3, ''LINE''), (6, ''POINT'')]),
   (''TETRAHEDRON'', [(2, ''LINE''), (4, ''POINT'')]),
   (''TWENTY_FOUR_CELL'', [(2, ''DODECAHEDRON''), (3, ''OCTAHEDRON''), (4, ''TETRAHEDRON''), (6, ''SQUARE''), (8, ''TRIANGLE''), (12, ''LINE''), (24, ''POINT'')]),
   (''FIVE_CELL'', [(2, ''TRIANGLE''), (5, ''POINT'')]),
   (''DODECAHEDRON'', [(2, ''ICOSAHEDRON''), (4, ''OCTAHEDRON''), (5, ''TETRAHEDRON''), (10, ''TRIANGLE''), (20, ''POINT'')]),
   (''ICOSAHEDRON'', [(2, ''DODECAHEDRON''), (3, ''OCTAHEDRON''), (4, ''TETRAHEDRON''), (6, ''TRIANGLE''), (12, ''POINT'')]),
   (''POINT'', [(1, ''POINT'')]),
   (''LINE'', [(1, ''LINE''), (2, ''POINT'')]),
   (''TRIANGLE'', [(1, ''TRIANGLE''), (2, ''LINE''), (3, ''POINT'')]),
   (''SQUARE'', [(1, ''SQUARE''), (2, ''LINE''), (4, ''POINT'')]),
   (''EIGHT_CELL'', [(1, ''EIGHT_CELL''), (2, ''CUBE''), (4, ''TETRAHEDRON''), (8, ''POINT'')]),
   (''SIXTEEN_CELL'', [(1, ''SIXTEEN_CELL''), (2, ''OCTAHEDRON''), (4, ''TETRAHEDRON''), (8, ''TRIANGLE''), (16, ''POINT'')]),
   (''SIX_HUNDRED_CELL'', [(1, ''SIX_HUNDRED_CELL''), (2, ''ICOSAHEDRON''), (3, ''DODECAHEDRON''), (4, ''OCTAHEDRON''), (5, ''TETRAHEDRON''), (6, ''TRIANGLE''), (10, ''LINE''), (20, ''POINT'')]),
   (''TRUNCATED_TETRAHEDRON'', [(1, ''TRUNCATED_TETRAHEDRON''), (2, ''TRIANGLE''), (4, ''POINT'')]),
   (''CUBOCTAHEDRON'', [(1, ''CUBOCTAHEDRON''), (2, ''TETRAHEDRON''), (3, ''TRIANGLE''), (6, ''POINT'')]),
   (''TRUNCATED_CUBE'', [(1, ''TRUNCATED_CUBE''), (2, ''CUBE''), (4, ''TETRAHEDRON''), (8, ''POINT'')]),
   (''TRUNCATED_OCTAHEDRON'', [(1, ''TRUNCATED_OCTAHEDRON''), (2, ''OCTAHEDRON''), (3, ''TETRAHEDRON''), (6, ''POINT'')]),
   (''RHOMBICUBOCTAHEDRON'', [(1, ''RHOMBICUBOCTAHEDRON''), (2, ''CUBE''), (4, ''TETRAHEDRON''), (8, ''POINT'')]),
   (''TRUNCATED_CUBOCTAHEDRON'', [(1, ''TRUNCATED_CUBOCTAHEDRON''), (2, ''CUBOCTAHEDRON''), (3, ''TETRAHEDRON''), (6, ''POINT'')]),
   (''SNUB_CUBE'', [(1, ''SNUB_CUBE''), (2, ''CUBE''), (4, ''TETRAHEDRON''), (8, ''POINT'')]),
   (''ICOSIDODECAHEDRON'', [(1, ''ICOSIDODECAHEDRON''), (2, ''DODECAHEDRON''), (3, ''ICOSAHEDRON''), (6, ''TETRAHEDRON''), (12, ''POINT'')]),
   (''TRUNCATED_DODECAHEDRON'', [(1, ''TRUNCATED_DODECAHEDRON''), (2, ''DODECAHEDRON''), (3, ''ICOSAHEDRON''), (6, ''TETRAHEDRON''), (12, ''POINT'')]),
   (''TRUNCATED_ICOSAHEDRON'', [(1, ''TRUNCATED_ICOSAHEDRON''), (2, ''ICOSAHEDRON''), (3, ''DODECAHEDRON''), (6, ''TETRAHEDRON''), (12, ''POINT'')]),
   (''RHOMBICOSIDODECAHEDRON'', [(1, ''RHOMBICOSIDODECAHEDRON''), (2, ''DODECAHEDRON''), (3, ''ICOSAHEDRON''), (6, ''TETRAHEDRON''), (12, ''POINT'')]),
   (''TRUNCATED_ICOSIDODECAHEDRON'', [(1, ''TRUNCATED_ICOSIDODECAHEDRON''), (2, ''ICOSAHEDRON''), (3, ''DODECAHEDRON''), (6, ''TETRAHEDRON''), (12, ''POINT'')]),
   (''SNUB_DODECAHEDRON'', [(1, ''SNUB_DODECAHEDRON''), (2, ''DODECAHEDRON''), (3, ''ICOSAHEDRON''), (6, ''TETRAHEDRON''), (12, ''POINT'')])]"

definition decompositionMap :: "GeometricType \<rightharpoonup> (int \<times> GeometricType) list" where
  "decompositionMap = map_of decompositionMap_entries"

text \<open>\<open>Math.floor(shape.vertices / partitionCount)\<close> with a zero piece count is an
  infinity or NaN, not an exception.\<close>

definition getDefaultDecomposition :: "GeometricType \<Rightarrow> int \<Rightarrow> error + GeometricType" where
  "getDefaultDecomposition original pieceCount =
     (case getGeometricShape original of
        Inl e \<Rightarrow> Inl e
      | Inr shp \<Rightarrow>
          (let verticesPerPartition =
                 js_floor (js_div (of_int (vertices shp)) (of_int pieceCount))
           in Inr (if js_ge verticesPerPartition 20 then ''DODECAHEDRON''
                   else if js_ge verticesPerPartition 12 then ''ICOSAHEDRON''
                   else if js_ge verticesPerPartition 8 then ''CUBE''
                   else if js_ge verticesPerPartition 6 then ''OCTAHEDRON''
                   else if js_ge verticesPerPartition 4 then ''TETRAHEDRON''
                   else if js_ge verticesPerPartition 3 then ''TRIANGLE''
                   else if js_ge verticesPerPartition 2 then ''LINE''
                   else ''POINT'')))"

text \<open>The selection loop over one table: state \<open>(bestMatch, bestPartitionCount)\<close>.\<close>

definition bestMatchLoop ::
  "int \<Rightarrow> (int \<times> GeometricType) list \<Rightarrow> GeometricType \<times> int \<Rightarrow> GeometricType \<times> int" where
  "bestMatchLoop pieceCount typeDecompositions start =
     fold (\<lambda>(count, decomposedType) (bestMatch, bestPartitionCount).
             if count \<le> pieceCount \<and> count > bestPartitionCount
             then (decomposedType, count)
             else (bestMatch, bestPartitionCount))
          typeDecompositions start"

text \<open>\<open>decompositionMap[original]\<close> for an inherited name is a truthy value with no
  entries, so the loop runs over nothing; the generic rule is reached only for a name that is
  neither a key nor inherited.\<close>

definition decomposeGeometricType :: "GeometricType \<Rightarrow> int \<Rightarrow> error + GeometricType" where
  "decomposeGeometricType original pieceCount =
     (case decompositionMap original of
        Some typeDecompositions \<Rightarrow>
          Inr (fst (bestMatchLoop pieceCount typeDecompositions (''POINT'', 0)))
      | None \<Rightarrow>
          if original \<in> set objectPrototypeNames
          then Inr (fst (bestMatchLoop pieceCount [] (''POINT'', 0)))
          else getDefaultDecomposition original pieceCount)"

section \<open>Dual recovery (dual-recovery.ts)\<close>

record UnifiedConsensus =
  totalAgrees :: int
  totalVertices :: int
  unifiedThreshold :: jsnum
  unified_valid :: bool

record DualMapping =
  mapping_original :: GeometricType
  mapping_dual :: GeometricType
  thresholdMapping :: jsnum

record DualRecoveryResult =
  recovery_success :: bool
  recoveredCertificate :: ConsensusCertificate
  recoveryProof :: narrative
  dualMapping :: DualMapping

definition mapThresholdViaDual ::
  "rat \<Rightarrow> GeometricType \<Rightarrow> GeometricType \<Rightarrow> error + jsnum" where
  "mapThresholdViaDual partitionThreshold original dl =
     (case getGeometricShape original of
        Inl e \<Rightarrow> Inl e
      | Inr originalShape \<Rightarrow>
          (case getGeometricShape dl of
             Inl e \<Rightarrow> Inl e
           | Inr dualShape \<Rightarrow>
               if original = dl then Inr (Num partitionThreshold)
               else
                 let faceVertexRatio =
                       js_div (of_int (vertices dualShape)) (of_int (faces originalShape));
                     mappedThreshold = js_mul partitionThreshold faceVertexRatio
                 in Inr (js_max 0 (js_min 1 mappedThreshold))))"

definition validatePartitionCertificates :: "ConsensusCertificate list \<Rightarrow> error + unit" where
  "validatePartitionCertificates certificates =
     (if length certificates = 0 then Inl NoPartitionCertificates
      else
        let invalidCertificates = filter (\<lambda>cert. \<not> valid cert) certificates in
        if length invalidCertificates > 0
        then Inl (InvalidCertificatesFound (length invalidCertificates))
        else
          let firstType = geometricType (certificates ! 0);
              inconsistentTypes = filter (\<lambda>cert. geometricType cert \<noteq> firstType) certificates
          in if length inconsistentTypes > 0 then Inl InconsistentGeometricTypes
             else Inr ())"

definition applyDualMapping ::
  "ConsensusCertificate list \<Rightarrow> GeometricShape \<Rightarrow> GeometricShape \<Rightarrow> error + UnifiedConsensus" where
  "applyDualMapping partitionCertificates originalShape dualShape =
     (let totalAgr = fold (\<lambda>cert sum. sum + agreesCount cert) partitionCertificates 0;
          totalVert = fold (\<lambda>cert sum. sum + int (length (cert_vertices cert)))
                        partitionCertificates 0
      in case mapThresholdViaDual (threshold originalShape) (shape_type originalShape)
                (shape_type dualShape) of
           Inl e \<Rightarrow> Inl e
         | Inr unified \<Rightarrow>
             (let requiredAgreement = js_ceil (js_mul (of_int totalVert) unified)
              in Inr \<lparr>totalAgrees = totalAgr,
                      totalVertices = totalVert,
                      unifiedThreshold = unified,
                      unified_valid = js_le_of (of_int totalAgr) requiredAgreement\<rparr>))"

definition calculateThresholdMapping :: "GeometricShape \<Rightarrow> GeometricShape \<Rightarrow> jsnum" where
  "calculateThresholdMapping original dl =
     (if shape_type original = shape_type dl then Num 1
      else js_div (of_int (vertices dl)) (of_int (faces original)))"

definition generateRecoveryProof ::
  "ConsensusCertificate list \<Rightarrow> GeometricShape \<Rightarrow> GeometricShape \<Rightarrow> UnifiedConsensus
     \<Rightarrow> narrative" where
  "generateRecoveryProof partitionCertificates originalShape dualShape unifiedConsensus =
     DualRecoveryProof (length partitionCertificates) originalShape dualShape
       (totalAgrees unifiedConsensus) (totalVertices unifiedConsensus)
       (unifiedThreshold unifiedConsensus) (unified_valid unifiedConsensus)"

definition createRecoveredCertificate ::
  "UnifiedConsensus \<Rightarrow> GeometricType \<Rightarrow> ConsensusCertificate list
     \<Rightarrow> error + ConsensusCertificate" where
  "createRecoveredCertificate unifiedConsensus originalType partitionCertificates =
     (case getGeometricShape originalType of
        Inl e \<Rightarrow> Inl e
      | Inr originalShape \<Rightarrow>
          (let allVertices = concat (map cert_vertices partitionCertificates)
           in Inr \<lparr>geometricType = originalType,
                   shape = originalShape,
                   cert_vertices = allVertices,
                   agreesCount = totalAgrees unifiedConsensus,
                   requiredCount =
                     js_ceil (js_mul (of_int (totalVertices unifiedConsensus))
                                (unifiedThreshold unifiedConsensus)),
                   thresholdPercentage = unifiedThreshold unifiedConsensus,
                   valid = unified_valid unifiedConsensus,
                   proof_text = RecoveredFrom (length partitionCertificates),
                   bettiNumbers = Some \<lparr>beta_0 = 1, beta_1 = 0, beta_2 = 0\<rparr>,
                   partitionInfo = Some \<lparr>isPartitioned = False, partitionCount = 1\<rparr>\<rparr>))"

text \<open>The recovery engine's own \<open>createErrorCertificate\<close>.\<close>

definition createRecoveryErrorCertificate ::
  "GeometricType \<Rightarrow> error \<Rightarrow> error + ConsensusCertificate" where
  "createRecoveryErrorCertificate originalType err =
     (case getGeometricShape originalType of
        Inl e \<Rightarrow> Inl e
      | Inr originalShape \<Rightarrow>
          Inr \<lparr>geometricType = originalType,
               shape = originalShape,
               cert_vertices = [],
               agreesCount = 0,
               requiredCount = Num 0,
               thresholdPercentage = Num 0,
               valid = False,
               proof_text = RecoveryFailed err,
               bettiNumbers = None,
               partitionInfo = None\<rparr>)"

text \<open>The body of the \<open>try\<close> block of \<open>recoverFromPartition\<close>.\<close>

definition recoverAttempt ::
  "ConsensusCertificate list \<Rightarrow> GeometricType \<Rightarrow> error + DualRecoveryResult" where
  "recoverAttempt partitionCertificates originalType =
     (case validatePartitionCertificates partitionCertificates of
        Inl e \<Rightarrow> Inl e
      | Inr _ \<Rightarrow>
     (case getGeometricShape originalType of
        Inl e \<Rightarrow> Inl e
      | Inr originalShape \<Rightarrow>
     (case getDual originalShape of
        Inl e \<Rightarrow> Inl e
      | Inr None \<Rightarrow> Inl (NoDualAvailable originalType)
      | Inr (Some dualShape) \<Rightarrow>
     (case applyDualMapping partitionCertificates originalShape dualShape of
        Inl e \<Rightarrow> Inl e
      | Inr unifiedConsensus \<Rightarrow>
     (case createRecoveredCertificate unifiedConsensus originalType partitionCertificates of
        Inl e \<Rightarrow> Inl e
      | Inr recovered \<Rightarrow>
          Inr \<lparr>recovery_success = True,
               recoveredCertificate = recovered,
               recoveryProof =
                 generateRecoveryProof partitionCertificates originalShape dualShape
                   unifiedConsensus,
               dualMapping =
                 \<lparr>mapping_original = originalType,
                  mapping_dual = shape_type dualShape,
                  thresholdMapping =
                    calculateThresholdMapping originalShape dualShape\<rparr>\<rparr>)))))"

text \<open>\<open>Inl e\<close> is an exception that leaves \<open>recoverFromPartition\<close>: one thrown inside
  its \<open>catch\<close> block.\<close>

definition recoverFromPartition ::
  "ConsensusCertificate list \<Rightarrow> GeometricType \<Rightarrow> error + DualRecoveryResult" where
  "recoverFromPartition partitionCertificates originalType =
     (case recoverAttempt partitionCertificates originalType of
        Inr result \<Rightarrow> Inr result
      | Inl err \<Rightarrow>
          (case createRecoveryErrorCertificate originalType err of
             Inl e \<Rightarrow> Inl e
           | Inr shell \<Rightarrow>
               Inr \<lparr>recovery_success = False,
                    recoveredCertificate = shell,
                    recoveryProof = RecoveryFailed err,
                    dualMapping =
                      \<lparr>mapping_original = originalType,
                       mapping_dual = originalType,
                       thresholdMapping = Num 0\<rparr>\<rparr>))"

section \<open>Example data\<close>

text \<open>Votes and piece certificates used to instantiate the theorems below.\<close>

definition exampleVote :: "string \<Rightarrow> bool \<Rightarrow> DecisionVertex" where
  "exampleVote i a =
     \<lparr>dv_id = i, dv_name = i, agrees = a, justification = None, weight = None\<rparr>"

definition examplePiece ::
  "GeometricType \<Rightarrow> DecisionVertex list \<Rightarrow> bool \<Rightarrow> ConsensusCertificate" where
  "examplePiece gt votes ok =
     \<lparr>geometricType = gt,
      shape = \<lparr>shape_type = gt, shape_name = gt, vertices = int (length votes), edges = 0,
               faces = 0, threshold = 1, dual = None, isSelfDual = True, dimension = 0,
               schlaefli = None, shape_context = Local, description = []\<rparr>,
      cert_vertices = votes,
      agreesCount = int (length (filter agrees votes)),
      requiredCount = Num (of_nat (length votes)),
      thresholdPercentage = Num 1,
      valid = ok,
      proof_text = RecoveredFrom 0,
      bettiNumbers = None,
      partitionInfo = None\<rparr>"

section \<open>The depth-first search returns\<close>

lemma unvisited_mark:
  assumes "v < n" "length vis = n" "\<not> vis ! v"
      and "length cur = n" "\<forall>i<n. (vis[v := True]) ! i \<longrightarrow> cur ! i"
      and "card {i. i < n \<and> \<not> vis ! i} \<le> Suc f"
  shows "card {i. i < n \<and> \<not> cur ! i} \<le> f"
proof -
  have fin: "finite {i. i < n \<and> \<not> vis ! i}" by simp
  have "{i. i < n \<and> \<not> cur ! i} \<subseteq> {i. i < n \<and> \<not> vis ! i} - {v}"
    using assms by (auto simp: nth_list_update)
  then have "card {i. i < n \<and> \<not> cur ! i} \<le> card ({i. i < n \<and> \<not> vis ! i} - {v})"
    by (intro card_mono) auto
  also have "\<dots> = card {i. i < n \<and> \<not> vis ! i} - 1"
    using assms(1,3) by (subst card_Diff_singleton) auto
  finally show ?thesis using assms(6) by linarith
qed

lemma dfs_loop:
  assumes IH: "\<And>u cur. u < n \<Longrightarrow> length cur = n \<Longrightarrow> \<not> cur ! u \<Longrightarrow>
                 card {i. i < n \<and> \<not> cur ! i} \<le> f \<Longrightarrow>
                 \<exists>res. dfs f u adj cur = Some res \<and> length res = n \<and>
                       (\<forall>i<n. cur ! i \<longrightarrow> res ! i) \<and> res ! u \<and>
                       (\<forall>j<n. adj ! u ! j = 1 \<longrightarrow> res ! j) \<and>
                       (\<forall>j<n. res ! j \<longrightarrow> cur ! j \<or> j = u \<or> R u j)"
      and R_adj: "\<forall>a<n. \<forall>b<n. adj ! a ! b = 1 \<longrightarrow> R a b"
      and R_trans: "\<forall>a b c. R a b \<longrightarrow> R b c \<longrightarrow> R a c"
      and v: "v < n" "length vis = n" "\<not> vis ! v" "card {i. i < n \<and> \<not> vis ! i} \<le> Suc f"
      and step: "step = (\<lambda>i acc. case acc of None \<Rightarrow> None
                     | Some vs \<Rightarrow> if adj ! v ! i = 1 \<and> \<not> vs ! i then dfs f i adj vs else Some vs)"
  shows "set js \<subseteq> {..<n} \<Longrightarrow> length cur = n \<Longrightarrow>
         \<forall>i<n. (vis[v := True]) ! i \<longrightarrow> cur ! i \<Longrightarrow>
         \<forall>j<n. cur ! j \<longrightarrow> vis ! j \<or> j = v \<or> R v j \<Longrightarrow>
         \<exists>res. fold step js (Some cur) = Some res \<and>
               length res = n \<and> (\<forall>i<n. cur ! i \<longrightarrow> res ! i) \<and>
               (\<forall>j\<in>set js. adj ! v ! j = 1 \<longrightarrow> res ! j) \<and>
               (\<forall>j<n. res ! j \<longrightarrow> vis ! j \<or> j = v \<or> R v j)"
proof (induction js arbitrary: cur)
  case Nil
  then show ?case by simp
next
  case (Cons i js)
  have i: "i < n" and js: "set js \<subseteq> {..<n}" using Cons.prems(1) by auto
  show ?case
  proof (cases "adj ! v ! i = 1 \<and> \<not> cur ! i")
    case True
    have cardcur: "card {i. i < n \<and> \<not> cur ! i} \<le> f"
      using unvisited_mark[OF v(1,2,3) Cons.prems(2,3) v(4)] .
    from IH[OF i Cons.prems(2) _ cardcur] True
    obtain mid where mid: "dfs f i adj cur = Some mid" "length mid = n"
        "\<forall>k<n. cur ! k \<longrightarrow> mid ! k" "mid ! i"
        "\<forall>j<n. mid ! j \<longrightarrow> cur ! j \<or> j = i \<or> R i j"
      by blast
    have st: "step i (Some cur) = Some mid" using True mid(1) by (simp add: step)
    have Rvi: "R v i" using R_adj v(1) i True by blast
    have m1: "\<forall>k<n. (vis[v := True]) ! k \<longrightarrow> mid ! k"
      using Cons.prems(3) mid(3) by blast
    have m2: "\<forall>j<n. mid ! j \<longrightarrow> vis ! j \<or> j = v \<or> R v j"
      using mid(5) Cons.prems(4) Rvi R_trans by blast
    from Cons.IH[OF js mid(2) m1 m2]
    obtain res where res: "fold step js (Some mid) = Some res" "length res = n"
        "\<forall>k<n. mid ! k \<longrightarrow> res ! k" "\<forall>j\<in>set js. adj ! v ! j = 1 \<longrightarrow> res ! j"
        "\<forall>j<n. res ! j \<longrightarrow> vis ! j \<or> j = v \<or> R v j"
      by blast
    have "fold step (i # js) (Some cur) = Some res"
      by (simp add: st res(1))
    moreover have "\<forall>k<n. cur ! k \<longrightarrow> res ! k" using mid(3) res(3) by blast
    moreover have "\<forall>j\<in>set (i # js). adj ! v ! j = 1 \<longrightarrow> res ! j"
      using res(4) res(3) mid(4) i by auto
    ultimately show ?thesis using res(2,5) by blast
  next
    case False
    have st: "step i (Some cur) = Some cur" using False by (auto simp add: step)
    from Cons.IH[OF js Cons.prems(2,3,4)]
    obtain res where res: "fold step js (Some cur) = Some res" "length res = n"
        "\<forall>k<n. cur ! k \<longrightarrow> res ! k" "\<forall>j\<in>set js. adj ! v ! j = 1 \<longrightarrow> res ! j"
        "\<forall>j<n. res ! j \<longrightarrow> vis ! j \<or> j = v \<or> R v j"
      by blast
    have "fold step (i # js) (Some cur) = Some res"
      by (simp add: st res(1))
    moreover have "\<forall>j\<in>set (i # js). adj ! v ! j = 1 \<longrightarrow> res ! j"
      using res(4) res(3) False i by auto
    ultimately show ?thesis using res(2,3,5) by blast
  qed
qed

lemma dfs_general:
  assumes sq: "\<forall>a<n. length (adj ! a) = n"
      and R_adj: "\<forall>a<n. \<forall>b<n. adj ! a ! b = 1 \<longrightarrow> R a b"
      and R_trans: "\<forall>a b c. R a b \<longrightarrow> R b c \<longrightarrow> R a c"
  shows "v < n \<Longrightarrow> length vis = n \<Longrightarrow> \<not> vis ! v \<Longrightarrow>
         card {i. i < n \<and> \<not> vis ! i} \<le> f \<Longrightarrow>
         \<exists>res. dfs f v adj vis = Some res \<and> length res = n \<and>
               (\<forall>i<n. vis ! i \<longrightarrow> res ! i) \<and> res ! v \<and>
               (\<forall>j<n. adj ! v ! j = 1 \<longrightarrow> res ! j) \<and>
               (\<forall>j<n. res ! j \<longrightarrow> vis ! j \<or> j = v \<or> R v j)"
proof (induction f arbitrary: v vis)
  case 0
  have "v \<in> {i. i < n \<and> \<not> vis ! i}" using 0 by simp
  moreover have "finite {i. i < n \<and> \<not> vis ! i}" by simp
  ultimately have "card {i. i < n \<and> \<not> vis ! i} \<noteq> 0" by (metis card_0_eq empty_iff)
  then show ?case using 0 by simp
next
  case (Suc f)
  define step where "step = (\<lambda>i acc. case acc of None \<Rightarrow> None
                     | Some vs \<Rightarrow> if adj ! v ! i = 1 \<and> \<not> vs ! i then dfs f i adj vs else Some vs)"
  let ?cur = "vis[v := True]"
  have len: "length (adj ! v) = n" using sq Suc.prems(1) by simp
  have c0: "set [0..<n] \<subseteq> {..<n}" by auto
  have c1: "length ?cur = n" using Suc.prems(2) by simp
  have c2: "\<forall>i<n. ?cur ! i \<longrightarrow> ?cur ! i" by simp
  have c3: "\<forall>j<n. ?cur ! j \<longrightarrow> vis ! j \<or> j = v \<or> R v j"
    using Suc.prems(1,2) by (auto simp: nth_list_update)
  from dfs_loop[where R = R, OF Suc.IH R_adj R_trans Suc.prems(1,2,3,4) step_def c0 c1 c2 c3]
  obtain res where res: "fold step [0..<n] (Some ?cur) = Some res" "length res = n"
        "\<forall>k<n. ?cur ! k \<longrightarrow> res ! k" "\<forall>j\<in>set [0..<n]. adj ! v ! j = 1 \<longrightarrow> res ! j"
        "\<forall>j<n. res ! j \<longrightarrow> vis ! j \<or> j = v \<or> R v j"
    by blast
  have "dfs (Suc f) v adj vis = fold step [0..<n] (Some ?cur)"
    by (simp only: dfs.simps step_def len)
  then have "dfs (Suc f) v adj vis = Some res" using res(1) by simp
  moreover have "\<forall>i<n. vis ! i \<longrightarrow> res ! i"
  proof (intro allI impI)
    fix i assume i: "i < n" "vis ! i"
    have "?cur ! i" using i Suc.prems(2) by (cases "i = v") simp_all
    then show "res ! i" using res(3) i(1) by blast
  qed
  moreover have "res ! v"
  proof -
    have "?cur ! v" using Suc.prems(1,2) by simp
    then show ?thesis using res(3) Suc.prems(1) by blast
  qed
  moreover have "\<forall>j<n. adj ! v ! j = 1 \<longrightarrow> res ! j" using res(4) by simp
  ultimately show ?case using res(2,5) by blast
qed

lemma dfs_returns:
  assumes sq: "\<forall>a<n. length (adj ! a) = n"
      and v: "v < n" "length vis = n" "\<not> vis ! v"
  shows "\<exists>res. dfs n v adj vis = Some res \<and> length res = n"
proof -
  have "card {i. i < n \<and> \<not> vis ! i} \<le> card {i. i < n}"
    by (intro card_mono) auto
  then have c: "card {i. i < n \<and> \<not> vis ! i} \<le> n" by simp
  from dfs_general[where R = "\<lambda>_ _. True", OF sq _ _ v c]
  show ?thesis by blast
qed

lemma components_loop_returns:
  assumes sq: "\<forall>a<n. length (adj ! a) = n"
  shows "set js \<subseteq> {..<n} \<Longrightarrow> length vis = n \<Longrightarrow>
         \<exists>vis' c'. fold (countComponent n adj) js (Some (vis, c)) = Some (vis', c') \<and>
                   length vis' = n"
proof (induction js arbitrary: vis c)
  case Nil
  then show ?case by simp
next
  case (Cons i js)
  have i: "i < n" and js: "set js \<subseteq> {..<n}" using Cons.prems(1) by auto
  show ?case
  proof (cases "vis ! i")
    case True
    then have "countComponent n adj i (Some (vis, c)) = Some (vis, c)"
      by (simp add: countComponent_def)
    then show ?thesis using Cons.IH[OF js Cons.prems(2), of c] by simp
  next
    case False
    from dfs_returns[OF sq i Cons.prems(2) False]
    obtain mid where mid: "dfs n i adj vis = Some mid" "length mid = n" by blast
    have "countComponent n adj i (Some (vis, c)) = Some (mid, c + 1)"
      using False mid(1) by (simp add: countComponent_def)
    then show ?thesis using Cons.IH[OF js mid(2), of "c + 1"] by simp
  qed
qed

lemma calculateConnectedComponents_returns:
  assumes sq: "\<forall>a<length vs. length (adj ! a) = length vs"
  shows "\<exists>c. calculateConnectedComponents vs adj = Some c"
proof -
  have "set [0..<length vs] \<subseteq> {..<length vs}" by auto
  from components_loop_returns[OF sq this, of "replicate (length vs) False" 0]
  obtain vis' c' where
    "fold (countComponent (length vs) adj) [0..<length vs]
       (Some (replicate (length vs) False, 0)) = Some (vis', c')"
    by auto
  then show ?thesis
    unfolding calculateConnectedComponents_def Let_def by simp
qed

text \<open>The adjacency matrix is square whatever the edges are, and the indices it is
  updated at are indices of vertices.\<close>

lemma vertexIndex_fold_range:
  "fold setVertexIndex ps m0 k = Some i \<Longrightarrow> m0 k = Some i \<or> i \<in> snd ` set ps"
proof (induction ps arbitrary: m0)
  case Nil
  then show ?case by simp
next
  case (Cons p ps)
  from Cons.prems have "fold setVertexIndex ps (setVertexIndex p m0) k = Some i"
    by simp
  from Cons.IH[OF this] have "setVertexIndex p m0 k = Some i \<or> i \<in> snd ` set ps" .
  then show ?case by (auto simp: setVertexIndex_def split: if_splits)
qed

lemma vertexIndexMap_range: "vertexIndexMap vs k = Some i \<Longrightarrow> i < length vs"
proof -
  assume "vertexIndexMap vs k = Some i"
  then have "i \<in> snd ` set (zip vs [0..<length vs])"
    unfolding vertexIndexMap_def
    using vertexIndex_fold_range[of "zip vs [0..<length vs]" Map.empty k i]
    by simp
  then show ?thesis by (auto dest: set_zip_rightD)
qed

lemma row_update_length:
  "a < length m \<Longrightarrow> length (m[i := (m ! i)[j := x]] ! a) = length (m ! a)"
  by (cases "i = a") simp_all

lemma markEdge_square:
  assumes "length m = n" "\<forall>a<n. length (m ! a) = n"
  shows "length (markEdge idx e m) = n \<and> (\<forall>a<n. length (markEdge idx e m ! a) = n)"
proof (cases "idx (from_id e)")
  case None
  then show ?thesis using assms by (simp add: markEdge_def)
next
  case (Some i)
  note Si = this
  show ?thesis
  proof (cases "idx (to_id e)")
    case None
    then show ?thesis using assms Si by (simp add: markEdge_def)
  next
    case (Some j)
    let ?m1 = "m[i := (m ! i)[j := 1]]"
    let ?m2 = "?m1[j := (?m1 ! j)[i := 1]]"
    have eq: "markEdge idx e m = ?m2" using Si Some by (simp add: markEdge_def Let_def)
    have l1: "length ?m1 = n" using assms(1) by simp
    have r1: "\<forall>a<n. length (?m1 ! a) = n"
      using assms row_update_length[of _ m i j 1] by simp
    have r2: "\<forall>a<n. length (?m2 ! a) = n"
      using l1 r1 row_update_length[of _ ?m1 j i 1] by simp
    show ?thesis unfolding eq using l1 r2 by simp
  qed
qed

lemma markEdge_fold_square:
  "length m = n \<Longrightarrow> \<forall>a<n. length (m ! a) = n \<Longrightarrow>
   length (fold (markEdge idx) es m) = n \<and>
   (\<forall>a<n. length (fold (markEdge idx) es m ! a) = n)"
proof (induction es arbitrary: m)
  case Nil
  then show ?case by simp
next
  case (Cons e es)
  from markEdge_square[OF Cons.prems, of idx e]
  have "length (markEdge idx e m) = n" "\<forall>a<n. length (markEdge idx e m ! a) = n" by blast+
  from Cons.IH[OF this] show ?case by simp
qed

lemma buildAdjacencyMatrix_square:
  "\<forall>a<length vs. length (buildAdjacencyMatrix vs es ! a) = length vs"
  unfolding buildAdjacencyMatrix_def Let_def
  using markEdge_fold_square[of "replicate (length vs) (replicate (length vs) 0)" "length vs" "vertexIndexMap vs" es]
  by simp

lemma calculateBettiNumbers_returns:
  "\<exists>b. calculateBettiNumbers vs es = Some b"
proof -
  obtain c where c: "calculateConnectedComponents vs (buildAdjacencyMatrix vs es) = Some c"
    using calculateConnectedComponents_returns[OF buildAdjacencyMatrix_square] by blast
  show ?thesis
    by (simp add: calculateBettiNumbers_def calculateCycles_def Let_def c)
qed

section \<open>Facts about the catalog\<close>

lemma catalog_entry: "GEOMETRIC_SHAPES t = Some s \<Longrightarrow> (t, s) \<in> set GEOMETRIC_SHAPES_entries"
  unfolding GEOMETRIC_SHAPES_def by (rule map_of_SomeD)

lemma catalog_entries_checked:
  "\<forall>(t, s)\<in>set GEOMETRIC_SHAPES_entries.
      shape_type s = t \<and> 0 < vertices s \<and> 0 < threshold s \<and>
      (dimension s = 3 \<longrightarrow> vertices s - edges s + faces s = 2) \<and>
      (isSelfDual s \<or> dual s = None \<or> dual s = Some t \<or> 0 < faces s)"
  by (simp add: GEOMETRIC_SHAPES_entries_def)

lemma catalog_type: "GEOMETRIC_SHAPES t = Some s \<Longrightarrow> shape_type s = t"
  using catalog_entries_checked catalog_entry by fastforce

lemma catalog_positive: "GEOMETRIC_SHAPES t = Some s \<Longrightarrow> 0 < vertices s \<and> 0 < threshold s"
  using catalog_entries_checked catalog_entry by fastforce

lemma required_positive:
  "GEOMETRIC_SHAPES t = Some s \<Longrightarrow> 1 \<le> calculateRequiredAgreement s"
proof -
  assume "GEOMETRIC_SHAPES t = Some s"
  then have "0 < of_int (vertices s) * threshold s"
    using catalog_positive by fastforce
  then have "0 < \<lceil>of_int (vertices s) * threshold s\<rceil>" by simp
  then show ?thesis by (simp add: calculateRequiredAgreement_def)
qed

section \<open>Consensus verifier: theorems\<close>

lemma verifyConsensus_known:
  assumes "GEOMETRIC_SHAPES gt = Some shp"
  shows "\<exists>betti.
     calculateBettiNumbers (convertToVertices criteria) (buildConsensusEdges criteria) = Some betti \<and>
     verifyConsensus criteria gt descr =
       Some (Inr \<lparr>certificate =
                   \<lparr>geometricType = shape_type shp,
                    shape = shp,
                    cert_vertices = criteria,
                    agreesCount = int (length (filter agrees criteria)),
                    requiredCount = Num (of_int (calculateRequiredAgreement shp)),
                    thresholdPercentage = Num (threshold shp),
                    valid = (calculateRequiredAgreement shp \<le> int (length (filter agrees criteria))),
                    proof_text =
                      MathematicalProof shp (int (length (filter agrees criteria)))
                        (calculateRequiredAgreement shp)
                        (calculateRequiredAgreement shp \<le> int (length (filter agrees criteria))),
                    bettiNumbers = Some betti,
                    partitionInfo =
                      Some \<lparr>isPartitioned = detectPartition betti,
                            partitionCount = countPartitions betti\<rparr>\<rparr>,
                  success = (calculateRequiredAgreement shp \<le> int (length (filter agrees criteria)))\<rparr>)"
proof -
  obtain betti where
    b: "calculateBettiNumbers (convertToVertices criteria) (buildConsensusEdges criteria) = Some betti"
    using calculateBettiNumbers_returns by blast
  show ?thesis
    using assms b
    by (simp add: verifyConsensus_def getGeometricShape_def createConsensusCertificate_def
        isValidForConsensus_def generateMathematicalProof_def Let_def)
qed

text \<open>
  C1. For every catalog shape the required agreement is \<open>ceil(vertices * threshold)\<close>, and
  the certificate that \<open>verifyConsensus\<close> returns for it counts the votes whose agreement
  flag is set, records that required count, and is valid exactly when the count of agreeing
  votes reaches it.
\<close>

theorem C1_required_agreement_and_validity:
  assumes "GEOMETRIC_SHAPES gt = Some shp"
  shows "calculateRequiredAgreement shp = \<lceil>of_int (vertices shp) * threshold shp\<rceil> \<and>
         (\<exists>r. verifyConsensus criteria gt descr = Some (Inr r) \<and>
              agreesCount (certificate r) = int (length (filter agrees criteria)) \<and>
              requiredCount (certificate r) = Num (of_int \<lceil>of_int (vertices shp) * threshold shp\<rceil>) \<and>
              (valid (certificate r) \<longleftrightarrow>
                 agreesCount (certificate r) \<ge> \<lceil>of_int (vertices shp) * threshold shp\<rceil>))"
proof -
  from verifyConsensus_known[OF assms, of criteria descr]
  obtain r where "verifyConsensus criteria gt descr = Some (Inr r)"
    "agreesCount (certificate r) = int (length (filter agrees criteria))"
    "requiredCount (certificate r) = Num (of_int (calculateRequiredAgreement shp))"
    "valid (certificate r) = (calculateRequiredAgreement shp \<le> int (length (filter agrees criteria)))"
    by fastforce
  then show ?thesis by (simp add: calculateRequiredAgreement_def)
qed

theorem C1_witness:
  "\<exists>shp. GEOMETRIC_SHAPES ''OCTAHEDRON'' = Some shp \<and>
     calculateRequiredAgreement shp = 5 \<and>
     (\<exists>r. verifyConsensus
             [exampleVote ''a'' True, exampleVote ''b'' True, exampleVote ''c'' True,
              exampleVote ''d'' True, exampleVote ''e'' True, exampleVote ''f'' False]
             ''OCTAHEDRON'' ''SHOULD'' = Some (Inr r) \<and>
          agreesCount (certificate r) = 5 \<and>
          requiredCount (certificate r) = Num 5 \<and>
          valid (certificate r))"
proof -
  obtain shp where s: "GEOMETRIC_SHAPES ''OCTAHEDRON'' = Some shp"
    and v: "vertices shp = 6" "threshold shp = 833 / 1000"
    by (simp add: GEOMETRIC_SHAPES_def GEOMETRIC_SHAPES_entries_def)
  have c: "\<lceil>of_int (vertices shp) * threshold shp\<rceil> = 5"
    unfolding v by (simp add: ceiling_eq_iff)
  show ?thesis
    using C1_required_agreement_and_validity[OF s,
        of "[exampleVote ''a'' True, exampleVote ''b'' True, exampleVote ''c'' True,
             exampleVote ''d'' True, exampleVote ''e'' True, exampleVote ''f'' False]" "''SHOULD''"]
    unfolding c using s by (auto simp: exampleVote_def)
qed

text \<open>
  C2. The claim: for every vote list and every shape identifier, also one that is not in the
  catalog, \<open>verifyConsensus\<close> returns a certificate. For an identifier outside the catalog
  the \<open>catch\<close> block calls \<open>createErrorCertificate\<close>, which resolves the identifier again,
  and the exception of that second lookup reaches the caller.
\<close>

theorem C2_unknown_shape_exception_escapes:
  "verifyConsensus [exampleVote ''a'' True] ''HEXAGON'' ''MUST'' =
     Some (Inl (UnknownGeometricType ''HEXAGON''))"
  by (simp add: verifyConsensus_def createErrorCertificate_def getGeometricShape_def
      GEOMETRIC_SHAPES_def GEOMETRIC_SHAPES_entries_def objectPrototypeNames_def)

lemma verifyConsensus_unknown:
  "GEOMETRIC_SHAPES gt = None \<Longrightarrow> gt \<notin> set objectPrototypeNames \<Longrightarrow>
     verifyConsensus criteria gt descr = Some (Inl (UnknownGeometricType gt))"
  by (simp add: verifyConsensus_def createErrorCertificate_def getGeometricShape_def)

lemma verifyConsensus_empty_votes:
  assumes "GEOMETRIC_SHAPES gt = Some shp"
  shows "\<exists>r. verifyConsensus [] gt descr = Some (Inr r) \<and>
              agreesCount (certificate r) = 0 \<and>
              requiredCount (certificate r) = Num (of_int \<lceil>of_int (vertices shp) * threshold shp\<rceil>) \<and>
              1 \<le> \<lceil>of_int (vertices shp) * threshold shp\<rceil> \<and>
              \<not> valid (certificate r) \<and> \<not> success r"
proof -
  have pos: "1 \<le> calculateRequiredAgreement shp" using required_positive[OF assms] .
  from verifyConsensus_known[OF assms, of "[]" descr] pos
  show ?thesis by (auto simp: calculateRequiredAgreement_def)
qed

text \<open>
  C8. The claim: for every known shape, \<open>verifyConsensus\<close> on an empty vote list gives a
  certificate with required count 0 and \<open>valid = false\<close>; the repository's test
  \<open>Empty votes array\<close> expects just that of \<open>mustLocal([])\<close>. The code takes the required
  count from the shape alone: \<open>mustLocal([])\<close> returns an invalid certificate whose
  required count is 4.
\<close>

theorem C8_empty_votes_required_count:
  "mustLocal [] =
     Some (Inr \<lparr>certificate =
       \<lparr>geometricType = ''TETRAHEDRON'',
        shape = \<lparr>shape_type = ''TETRAHEDRON'', shape_name = ''Tetrahedron'', vertices = 4,
                 edges = 6, faces = 4, threshold = 1, dual = Some ''TETRAHEDRON'',
                 isSelfDual = True, dimension = 3, schlaefli = Some ''{3,3}'',
                 shape_context = Local, description = ''3D tetrahedron - MUST (unanimous)''\<rparr>,
        cert_vertices = [],
        agreesCount = 0,
        requiredCount = Num 4,
        thresholdPercentage = Num 1,
        valid = False,
        proof_text = MathematicalProof
           \<lparr>shape_type = ''TETRAHEDRON'', shape_name = ''Tetrahedron'', vertices = 4,
            edges = 6, faces = 4, threshold = 1, dual = Some ''TETRAHEDRON'',
            isSelfDual = True, dimension = 3, schlaefli = Some ''{3,3}'',
            shape_context = Local, description = ''3D tetrahedron - MUST (unanimous)''\<rparr>
           0 4 False,
        bettiNumbers = Some \<lparr>beta_0 = 0, beta_1 = 0, beta_2 = 0\<rparr>,
        partitionInfo = Some \<lparr>isPartitioned = False, partitionCount = 0\<rparr>\<rparr>,
       success = False\<rparr>)"
  by (simp add: mustLocal_def verifyConsensus_def getGeometricShape_def GEOMETRIC_SHAPES_def
      GEOMETRIC_SHAPES_entries_def createConsensusCertificate_def calculateRequiredAgreement_def
      isValidForConsensus_def generateMathematicalProof_def calculateBettiNumbers_def
      convertToVertices_def buildConsensusEdges_def detectPartition_def countPartitions_def)

text \<open>
  C9. Every catalog shape of dimension 3 satisfies Euler's formula \<open>V - E + F = 2\<close>.
\<close>

theorem C9_euler_formula:
  "GEOMETRIC_SHAPES t = Some s \<Longrightarrow> dimension s = 3 \<Longrightarrow>
     vertices s - edges s + faces s = 2"
  using catalog_entries_checked catalog_entry by fastforce

theorem C9_witness:
  "\<exists>s. GEOMETRIC_SHAPES ''DODECAHEDRON'' = Some s \<and> dimension s = 3 \<and>
        vertices s = 20 \<and> edges s = 30 \<and> faces s = 12 \<and>
        vertices s - edges s + faces s = 2"
proof -
  obtain s where s: "GEOMETRIC_SHAPES ''DODECAHEDRON'' = Some s"
    and d: "dimension s = 3" and v: "vertices s = 20" "edges s = 30" "faces s = 12"
    by (simp add: GEOMETRIC_SHAPES_def GEOMETRIC_SHAPES_entries_def)
  from C9_euler_formula[OF s d] s d v show ?thesis by blast
qed

section \<open>Dual recovery: theorems\<close>

lemma examplePiece_fields:
  "geometricType (examplePiece gt votes ok) = gt"
  "valid (examplePiece gt votes ok) = ok"
  "cert_vertices (examplePiece gt votes ok) = votes"
  "agreesCount (examplePiece gt votes ok) = int (length (filter agrees votes))"
  by (simp_all add: examplePiece_def)

lemma sum_agrees_fold:
  "fold (\<lambda>cert sum. sum + agreesCount cert) pcs acc = acc + sum_list (map agreesCount pcs)"
  by (induction pcs arbitrary: acc) simp_all

lemma getDual_catalog:
  assumes "GEOMETRIC_SHAPES t = Some s" "getDual s = Inr (Some d)"
  shows "GEOMETRIC_SHAPES (shape_type d) = Some d"
proof (cases "isSelfDual s")
  case True
  then have "d = s" using assms(2) by (simp add: getDual_def)
  then show ?thesis using assms(1) catalog_type by fastforce
next
  case False
  then obtain k where k: "dual s = Some k" "k \<noteq> []" "GEOMETRIC_SHAPES k = Some d"
    using assms(2)
    by (auto simp: getDual_def getGeometricShape_def split: option.splits if_splits)
  then show ?thesis using catalog_type by fastforce
qed

lemma validate_ok:
  assumes "pcs \<noteq> []" "\<forall>c\<in>set pcs. valid c" "\<forall>c\<in>set pcs. geometricType c = T"
  shows "validatePartitionCertificates pcs = Inr ()"
proof -
  have "filter (\<lambda>cert. \<not> valid cert) pcs = []" using assms(2) by (simp add: filter_empty_conv)
  moreover have "pcs ! 0 \<in> set pcs" using assms(1) by simp
  then have "geometricType (pcs ! 0) = T" using assms(3) by blast
  then have "filter (\<lambda>cert. geometricType cert \<noteq> geometricType (pcs ! 0)) pcs = []"
    using assms(3) by (simp add: filter_empty_conv)
  ultimately show ?thesis using assms(1)
    by (simp add: validatePartitionCertificates_def Let_def)
qed

lemma validate_fails:
  assumes "pcs = [] \<or> (\<exists>c\<in>set pcs. \<not> valid c) \<or>
           (\<exists>c\<in>set pcs. \<exists>c'\<in>set pcs. geometricType c \<noteq> geometricType c')"
  shows "\<exists>e. validatePartitionCertificates pcs = Inl e"
proof (cases "pcs = []")
  case True
  then show ?thesis by (simp add: validatePartitionCertificates_def)
next
  case False
  note ne = this
  show ?thesis
  proof (cases "\<exists>c\<in>set pcs. \<not> valid c")
    case True
    then have "filter (\<lambda>cert. \<not> valid cert) pcs \<noteq> []" by (simp add: filter_empty_conv)
    then show ?thesis using ne by (simp add: validatePartitionCertificates_def Let_def)
  next
    case False
    then have nv: "filter (\<lambda>cert. \<not> valid cert) pcs = []" by (simp add: filter_empty_conv)
    from assms ne False obtain c c' where cc: "c \<in> set pcs" "c' \<in> set pcs"
      "geometricType c \<noteq> geometricType c'" by blast
    then have "geometricType c \<noteq> geometricType (pcs ! 0) \<or>
               geometricType c' \<noteq> geometricType (pcs ! 0)" by auto
    then have "filter (\<lambda>cert. geometricType cert \<noteq> geometricType (pcs ! 0)) pcs \<noteq> []"
      using cc(1,2) by (auto simp: filter_empty_conv)
    then show ?thesis using ne nv by (simp add: validatePartitionCertificates_def Let_def)
  qed
qed

lemma sum_votes_fold:
  "fold (\<lambda>cert sum. sum + int (length (cert_vertices cert))) pcs acc =
     acc + int (length (concat (map cert_vertices pcs)))"
  by (induction pcs arbitrary: acc) simp_all

lemma getDual_other_has_faces:
  assumes "GEOMETRIC_SHAPES t = Some os" "getDual os = Inr (Some ds)" "shape_type ds \<noteq> t"
  shows "0 < faces os"
proof -
  have chk: "isSelfDual os \<or> dual os = None \<or> dual os = Some t \<or> 0 < faces os"
    using catalog_entries_checked catalog_entry[OF assms(1)] by fastforce
  have t: "shape_type os = t" using catalog_type[OF assms(1)] .
  have n1: "\<not> isSelfDual os" using assms(2,3) t by (auto simp: getDual_def)
  have n2: "dual os \<noteq> None" using assms(2) n1
    by (auto simp: getDual_def split: option.splits)
  have n3: "dual os \<noteq> Some t"
  proof
    assume "dual os = Some t"
    then have "ds = os" using assms(1,2) n1
      by (auto simp: getDual_def getGeometricShape_def split: if_splits)
    then show False using assms(3) t by simp
  qed
  from chk n1 n2 n3 show ?thesis by simp
qed

text \<open>The result of a recovery whose piece certificates pass the validation, for an
  original shape of the catalog that has a dual, written out in full.\<close>

lemma recover_result:
  assumes "pcs \<noteq> []" "\<forall>c\<in>set pcs. valid c" "\<forall>c\<in>set pcs. geometricType c = T"
      and "GEOMETRIC_SHAPES originalType = Some os" "getDual os = Inr (Some ds)"
      and u: "u = (if shape_type ds = originalType then threshold os
                   else max 0 (min 1 (threshold os *
                          (of_int (vertices ds) / of_int (faces os)))))"
      and n: "n = int (length (concat (map cert_vertices pcs)))"
      and a: "a = sum_list (map agreesCount pcs)"
  shows "recoverFromPartition pcs originalType =
           Inr \<lparr>recovery_success = True,
                recoveredCertificate =
                  \<lparr>geometricType = originalType,
                   shape = os,
                   cert_vertices = concat (map cert_vertices pcs),
                   agreesCount = a,
                   requiredCount = Num (of_int \<lceil>of_int n * u\<rceil>),
                   thresholdPercentage = Num u,
                   valid = (\<lceil>of_int n * u\<rceil> \<le> a),
                   proof_text = RecoveredFrom (length pcs),
                   bettiNumbers = Some \<lparr>beta_0 = 1, beta_1 = 0, beta_2 = 0\<rparr>,
                   partitionInfo = Some \<lparr>isPartitioned = False, partitionCount = 1\<rparr>\<rparr>,
                recoveryProof =
                  DualRecoveryProof (length pcs) os ds a n (Num u) (\<lceil>of_int n * u\<rceil> \<le> a),
                dualMapping =
                  \<lparr>mapping_original = originalType,
                   mapping_dual = shape_type ds,
                   thresholdMapping =
                     (if shape_type ds = originalType then Num 1
                      else Num (of_int (vertices ds) / of_int (faces os)))\<rparr>\<rparr>"
proof -
  have v: "validatePartitionCertificates pcs = Inr ()" using validate_ok[OF assms(1,2,3)] .
  have t: "shape_type os = originalType" using catalog_type[OF assms(4)] .
  have o: "getGeometricShape originalType = Inr os"
    using assms(4) by (simp add: getGeometricShape_def)
  have d: "getGeometricShape (shape_type ds) = Inr ds"
    using getDual_catalog[OF assms(4,5)] by (simp add: getGeometricShape_def)
  have m: "mapThresholdViaDual (threshold os) originalType (shape_type ds) = Inr (Num u)"
  proof (cases "shape_type ds = originalType")
    case True
    then show ?thesis using o d by (simp add: mapThresholdViaDual_def u)
  next
    case False
    then have "faces os \<noteq> 0" using getDual_other_has_faces[OF assms(4,5)] by simp
    then show ?thesis using False o d
      by (auto simp: mapThresholdViaDual_def u js_div_def Let_def)
  qed
  have tm: "calculateThresholdMapping os ds =
              (if shape_type ds = originalType then Num 1
               else Num (of_int (vertices ds) / of_int (faces os)))"
  proof (cases "shape_type ds = originalType")
    case True
    then show ?thesis using t by (simp add: calculateThresholdMapping_def)
  next
    case False
    then have "faces os \<noteq> 0" using getDual_other_has_faces[OF assms(4,5)] by simp
    then show ?thesis using False t
      by (auto simp: calculateThresholdMapping_def js_div_def)
  qed
  have uc: "applyDualMapping pcs os ds =
              Inr \<lparr>totalAgrees = a, totalVertices = n, unifiedThreshold = Num u,
                   unified_valid = (\<lceil>of_int n * u\<rceil> \<le> a)\<rparr>"
    by (simp add: applyDualMapping_def t m sum_agrees_fold sum_votes_fold a n Let_def)
  show ?thesis
    by (simp add: recoverFromPartition_def recoverAttempt_def v o assms(5) uc tm
        createRecoveredCertificate_def generateRecoveryProof_def Let_def)
qed

text \<open>
  C3. The claim: \<open>mapThresholdViaDual\<close> leaves the threshold of a self-dual shape unchanged
  and otherwise returns \<open>dualVertexCount / originalFaceCount\<close> clamped to \<open>[0, 1]\<close>. The
  quotient is multiplied by the threshold that is passed in: for the cube (threshold 1/2, 6
  faces) and its dual the octahedron (6 vertices) the result is 1/2, where the quotient
  alone is 1.
\<close>

theorem C3_counterexample:
  "mapThresholdViaDual (1 / 2) ''CUBE'' ''OCTAHEDRON'' = Inr (Num (1 / 2)) \<and>
   Num (1 / 2) \<noteq> js_max 0 (js_min 1 (js_div 6 6))"
  by (simp add: mapThresholdViaDual_def getGeometricShape_def GEOMETRIC_SHAPES_def
      GEOMETRIC_SHAPES_entries_def js_div_def)

text \<open>
  C3, amended. For catalog shapes, \<open>mapThresholdViaDual\<close> returns the threshold unchanged
  when the original and the dual identifier are the same (as they are when a self-dual shape
  is paired with the dual that \<open>getDual\<close> gives it); when they differ and the original
  shape has a face it returns \<open>threshold * dualVertexCount / originalFaceCount\<close> clamped to
  \<open>[0, 1]\<close>.
\<close>

theorem C3_mapThresholdViaDual:
  assumes "GEOMETRIC_SHAPES original = Some os" "GEOMETRIC_SHAPES dl = Some ds"
  shows "(original = dl \<longrightarrow> mapThresholdViaDual t original dl = Inr (Num t)) \<and>
         (original \<noteq> dl \<and> faces os \<noteq> 0 \<longrightarrow>
            mapThresholdViaDual t original dl =
              Inr (Num (max 0 (min 1 (t * (of_int (vertices ds) / of_int (faces os))))))) \<and>
         (isSelfDual os \<longrightarrow> getDual os = Inr (Some os))"
  using assms
  by (simp add: mapThresholdViaDual_def getGeometricShape_def js_div_def getDual_def Let_def)

theorem C3_witness:
  "(\<exists>os ds. GEOMETRIC_SHAPES ''ICOSAHEDRON'' = Some os \<and>
           GEOMETRIC_SHAPES ''DODECAHEDRON'' = Some ds \<and>
           faces os \<noteq> 0 \<and> \<not> isSelfDual os \<and>
           mapThresholdViaDual (3 / 4) ''ICOSAHEDRON'' ''DODECAHEDRON'' = Inr (Num (3 / 4)) \<and>
           mapThresholdViaDual (3 / 4) ''ICOSAHEDRON'' ''ICOSAHEDRON'' = Inr (Num (3 / 4)) \<and>
           mapThresholdViaDual 2 ''ICOSAHEDRON'' ''DODECAHEDRON'' = Inr (Num 1)) \<and>
   (\<exists>ts. GEOMETRIC_SHAPES ''TETRAHEDRON'' = Some ts \<and> isSelfDual ts \<and>
         getDual ts = Inr (Some ts) \<and>
         mapThresholdViaDual 1 ''TETRAHEDRON'' ''TETRAHEDRON'' = Inr (Num 1))"
proof -
  obtain os where os: "GEOMETRIC_SHAPES ''ICOSAHEDRON'' = Some os"
    and f: "faces os = 20" "\<not> isSelfDual os"
    by (simp add: GEOMETRIC_SHAPES_def GEOMETRIC_SHAPES_entries_def)
  obtain ds where ds: "GEOMETRIC_SHAPES ''DODECAHEDRON'' = Some ds"
    and v: "vertices ds = 20"
    by (simp add: GEOMETRIC_SHAPES_def GEOMETRIC_SHAPES_entries_def)
  obtain ts where ts: "GEOMETRIC_SHAPES ''TETRAHEDRON'' = Some ts"
    and sd: "isSelfDual ts"
    by (simp add: GEOMETRIC_SHAPES_def GEOMETRIC_SHAPES_entries_def)
  have ne: "''ICOSAHEDRON'' \<noteq> ''DODECAHEDRON''" by simp
  from C3_mapThresholdViaDual[OF os ds, of "3 / 4"] C3_mapThresholdViaDual[OF os os, of "3 / 4"]
       C3_mapThresholdViaDual[OF os ds, of 2] ne f v os ds
  have a: "\<exists>os ds. GEOMETRIC_SHAPES ''ICOSAHEDRON'' = Some os \<and>
           GEOMETRIC_SHAPES ''DODECAHEDRON'' = Some ds \<and>
           faces os \<noteq> 0 \<and> \<not> isSelfDual os \<and>
           mapThresholdViaDual (3 / 4) ''ICOSAHEDRON'' ''DODECAHEDRON'' = Inr (Num (3 / 4)) \<and>
           mapThresholdViaDual (3 / 4) ''ICOSAHEDRON'' ''ICOSAHEDRON'' = Inr (Num (3 / 4)) \<and>
           mapThresholdViaDual 2 ''ICOSAHEDRON'' ''DODECAHEDRON'' = Inr (Num 1)"
    by auto
  from C3_mapThresholdViaDual[OF ts ts, of 1] ts sd
  have b: "\<exists>ts. GEOMETRIC_SHAPES ''TETRAHEDRON'' = Some ts \<and> isSelfDual ts \<and>
         getDual ts = Inr (Some ts) \<and>
         mapThresholdViaDual 1 ''TETRAHEDRON'' ''TETRAHEDRON'' = Inr (Num 1)"
    by auto
  from a b show ?thesis by blast
qed

text \<open>For an original shape of the catalog, each of the three validation failures gives
  \<open>success = false\<close> and the shell certificate.\<close>

lemma recover_failure_shell_catalog:
  assumes "GEOMETRIC_SHAPES originalType = Some shp"
      and "pcs = [] \<or> (\<exists>c\<in>set pcs. \<not> valid c) \<or>
           (\<exists>c\<in>set pcs. \<exists>c'\<in>set pcs. geometricType c \<noteq> geometricType c')"
  shows "\<exists>r. recoverFromPartition pcs originalType = Inr r \<and>
             \<not> recovery_success r \<and>
             cert_vertices (recoveredCertificate r) = [] \<and>
             agreesCount (recoveredCertificate r) = 0 \<and>
             requiredCount (recoveredCertificate r) = Num 0 \<and>
             \<not> valid (recoveredCertificate r)"
proof -
  obtain e where "validatePartitionCertificates pcs = Inl e"
    using validate_fails[OF assms(2)] by blast
  then have "recoverAttempt pcs originalType = Inl e" by (simp add: recoverAttempt_def)
  then show ?thesis using assms(1)
    by (simp add: recoverFromPartition_def createRecoveryErrorCertificate_def
        getGeometricShape_def)
qed

lemma recoverFromPartition_unknown_original:
  assumes "GEOMETRIC_SHAPES originalType = None" "originalType \<notin> set objectPrototypeNames"
  shows "recoverFromPartition pcs originalType = Inl (UnknownGeometricType originalType)"
proof -
  have g: "getGeometricShape originalType = Inl (UnknownGeometricType originalType)"
    using assms by (simp add: getGeometricShape_def)
  have "\<exists>e. recoverAttempt pcs originalType = Inl e"
    by (cases "validatePartitionCertificates pcs") (simp_all add: recoverAttempt_def g)
  then show ?thesis
    by (auto simp: recoverFromPartition_def createRecoveryErrorCertificate_def g)
qed

text \<open>
  C4. The claim: for every call of \<open>recoverFromPartition\<close>, if the list of piece
  certificates is empty, or one of them is not valid, or two of them carry different shape
  identifiers, the result has \<open>success = false\<close> and a shell certificate. The \<open>catch\<close>
  block builds the shell with \<open>createErrorCertificate\<close>, which looks \<open>originalType\<close> up;
  for an identifier outside the catalog that lookup throws inside the \<open>catch\<close> block and
  the exception reaches the caller, in each of the three cases.
\<close>

theorem C4_unknown_original_exception_escapes:
  "recoverFromPartition [] ''HEXAGON'' = Inl (UnknownGeometricType ''HEXAGON'') \<and>
   recoverFromPartition [examplePiece ''CUBE'' [exampleVote ''a'' False] False] ''HEXAGON''
     = Inl (UnknownGeometricType ''HEXAGON'') \<and>
   recoverFromPartition
     [examplePiece ''CUBE'' [exampleVote ''a'' True] True,
      examplePiece ''OCTAHEDRON'' [exampleVote ''b'' True] True] ''HEXAGON''
     = Inl (UnknownGeometricType ''HEXAGON'')"
proof -
  have g: "getGeometricShape ''HEXAGON'' = Inl (UnknownGeometricType ''HEXAGON'')"
    by (simp add: getGeometricShape_def GEOMETRIC_SHAPES_def GEOMETRIC_SHAPES_entries_def
        objectPrototypeNames_def)
  have a: "validatePartitionCertificates [] = Inl NoPartitionCertificates"
    by (simp add: validatePartitionCertificates_def)
  have b: "validatePartitionCertificates
             [examplePiece ''CUBE'' [exampleVote ''a'' False] False]
           = Inl (InvalidCertificatesFound 1)"
    by (simp add: validatePartitionCertificates_def examplePiece_fields)
  have c: "validatePartitionCertificates
             [examplePiece ''CUBE'' [exampleVote ''a'' True] True,
              examplePiece ''OCTAHEDRON'' [exampleVote ''b'' True] True]
           = Inl InconsistentGeometricTypes"
    by (simp add: validatePartitionCertificates_def examplePiece_fields)
  show ?thesis
    by (simp add: recoverFromPartition_def recoverAttempt_def
        createRecoveryErrorCertificate_def g a b c)
qed

text \<open>
  C6. The certificate of a successful recovery names the original shape identifier, carries
  the concatenation of the pieces' vote lists, has the sum of the pieces' counts of agreeing
  votes, and states the invariants \<open>(1, 0, 0)\<close>; these are constants of
  \<open>createRecoveredCertificate\<close>, no connectivity is computed.
\<close>

theorem C6_recovered_certificate:
  assumes "recoverFromPartition pcs originalType = Inr r" "recovery_success r"
  shows "geometricType (recoveredCertificate r) = originalType \<and>
         cert_vertices (recoveredCertificate r) = concat (map cert_vertices pcs) \<and>
         agreesCount (recoveredCertificate r) = sum_list (map agreesCount pcs) \<and>
         bettiNumbers (recoveredCertificate r) = Some \<lparr>beta_0 = 1, beta_1 = 0, beta_2 = 0\<rparr> \<and>
         partitionInfo (recoveredCertificate r) =
           Some \<lparr>isPartitioned = False, partitionCount = 1\<rparr>"
proof (cases "recoverAttempt pcs originalType")
  case (Inl e)
  then have "\<not> recovery_success r" using assms(1)
    by (auto simp: recoverFromPartition_def split: sum.splits)
  then show ?thesis using assms(2) by simp
next
  case (Inr r')
  then have "r' = r" using assms(1) by (simp add: recoverFromPartition_def)
  then show ?thesis using Inr
    by (auto simp: recoverAttempt_def createRecoveredCertificate_def applyDualMapping_def
        sum_agrees_fold Let_def split: sum.splits option.splits)
qed

theorem C6_witness:
  "\<exists>r. recoverFromPartition
          [examplePiece ''CUBE'' [exampleVote ''a'' True, exampleVote ''b'' True] True,
           examplePiece ''CUBE'' [exampleVote ''c'' True, exampleVote ''d'' True] True]
          ''CUBE'' = Inr r \<and>
       recovery_success r \<and>
       geometricType (recoveredCertificate r) = ''CUBE'' \<and>
       cert_vertices (recoveredCertificate r) =
         [exampleVote ''a'' True, exampleVote ''b'' True,
          exampleVote ''c'' True, exampleVote ''d'' True] \<and>
       agreesCount (recoveredCertificate r) = 4 \<and>
       bettiNumbers (recoveredCertificate r) = Some \<lparr>beta_0 = 1, beta_1 = 0, beta_2 = 0\<rparr>"
proof -
  let ?pcs = "[examplePiece ''CUBE'' [exampleVote ''a'' True, exampleVote ''b'' True] True,
               examplePiece ''CUBE'' [exampleVote ''c'' True, exampleVote ''d'' True] True]"
  obtain os where os: "GEOMETRIC_SHAPES ''CUBE'' = Some os"
    and f: "\<not> isSelfDual os" "dual os = Some ''OCTAHEDRON''"
    by (simp add: GEOMETRIC_SHAPES_def GEOMETRIC_SHAPES_entries_def)
  obtain ds where ds: "getDual os = Inr (Some ds)"
    using f by (simp add: getDual_def getGeometricShape_def GEOMETRIC_SHAPES_def
        GEOMETRIC_SHAPES_entries_def)
  have p: "?pcs \<noteq> []" "\<forall>c\<in>set ?pcs. valid c" "\<forall>c\<in>set ?pcs. geometricType c = ''CUBE''"
    by (simp_all add: examplePiece_fields)
  from recover_result[OF p os ds refl refl refl]
  obtain r where r: "recoverFromPartition ?pcs ''CUBE'' = Inr r" "recovery_success r" by simp
  from C6_recovered_certificate[OF r] r show ?thesis
    by (auto simp: examplePiece_fields exampleVote_def)
qed

text \<open>
  C10. \<open>recoverFromPartition\<close> compares the piece certificates with each other only. For a
  non-empty list of valid piece certificates that all carry one shape identifier \<open>T\<close>,
  and an \<open>originalType\<close> of the catalog that has a dual, the recovery succeeds whether or
  not \<open>T\<close> is \<open>originalType\<close>, and every field of its result is computed from the
  catalog entry of \<open>originalType\<close> and its dual, and from the pieces' votes and counts of
  agreeing votes: the unified threshold is the threshold of \<open>originalType\<close> mapped through
  its dual, the required count its ceiling on the total number of votes.
\<close>

theorem C10_pieces_not_checked_against_original:
  assumes "pcs \<noteq> []" "\<forall>c\<in>set pcs. valid c" "\<forall>c\<in>set pcs. geometricType c = T"
      and "GEOMETRIC_SHAPES originalType = Some os" "getDual os = Inr (Some ds)"
  shows "let u = (if shape_type ds = originalType then threshold os
                  else max 0 (min 1 (threshold os *
                         (of_int (vertices ds) / of_int (faces os)))));
             n = int (length (concat (map cert_vertices pcs)));
             a = sum_list (map agreesCount pcs)
         in recoverFromPartition pcs originalType =
           Inr \<lparr>recovery_success = True,
                recoveredCertificate =
                  \<lparr>geometricType = originalType,
                   shape = os,
                   cert_vertices = concat (map cert_vertices pcs),
                   agreesCount = a,
                   requiredCount = Num (of_int \<lceil>of_int n * u\<rceil>),
                   thresholdPercentage = Num u,
                   valid = (\<lceil>of_int n * u\<rceil> \<le> a),
                   proof_text = RecoveredFrom (length pcs),
                   bettiNumbers = Some \<lparr>beta_0 = 1, beta_1 = 0, beta_2 = 0\<rparr>,
                   partitionInfo = Some \<lparr>isPartitioned = False, partitionCount = 1\<rparr>\<rparr>,
                recoveryProof =
                  DualRecoveryProof (length pcs) os ds a n (Num u) (\<lceil>of_int n * u\<rceil> \<le> a),
                dualMapping =
                  \<lparr>mapping_original = originalType,
                   mapping_dual = shape_type ds,
                   thresholdMapping =
                     (if shape_type ds = originalType then Num 1
                      else Num (of_int (vertices ds) / of_int (faces os)))\<rparr>\<rparr>"
  unfolding Let_def using recover_result[OF assms refl refl refl] .

theorem C10_witness:
  "\<exists>r os. recoverFromPartition
          [examplePiece ''TETRAHEDRON'' [exampleVote ''a'' True, exampleVote ''b'' True] True,
           examplePiece ''TETRAHEDRON'' [exampleVote ''c'' True, exampleVote ''d'' True] True]
          ''CUBE'' = Inr r \<and>
       ''TETRAHEDRON'' \<noteq> ''CUBE'' \<and>
       recovery_success r \<and>
       GEOMETRIC_SHAPES ''CUBE'' = Some os \<and>
       geometricType (recoveredCertificate r) = ''CUBE'' \<and>
       shape (recoveredCertificate r) = os \<and>
       thresholdPercentage (recoveredCertificate r) = Num (1 / 2) \<and>
       requiredCount (recoveredCertificate r) = Num 2 \<and>
       agreesCount (recoveredCertificate r) = 4 \<and>
       valid (recoveredCertificate r) \<and>
       mapping_dual (dualMapping r) = ''OCTAHEDRON'' \<and>
       thresholdMapping (dualMapping r) = Num 1"
proof -
  let ?pcs = "[examplePiece ''TETRAHEDRON'' [exampleVote ''a'' True, exampleVote ''b'' True] True,
               examplePiece ''TETRAHEDRON'' [exampleVote ''c'' True, exampleVote ''d'' True] True]"
  obtain os where os: "GEOMETRIC_SHAPES ''CUBE'' = Some os"
    and f: "\<not> isSelfDual os" "dual os = Some ''OCTAHEDRON''"
    and o: "threshold os = 1 / 2" "faces os = 6"
    by (simp add: GEOMETRIC_SHAPES_def GEOMETRIC_SHAPES_entries_def)
  obtain ds where ds: "getDual os = Inr (Some ds)" and t: "shape_type ds = ''OCTAHEDRON''"
    and d: "vertices ds = 6"
    using f by (simp add: getDual_def getGeometricShape_def GEOMETRIC_SHAPES_def
        GEOMETRIC_SHAPES_entries_def)
  have p: "?pcs \<noteq> []" "\<forall>c\<in>set ?pcs. valid c"
    "\<forall>c\<in>set ?pcs. geometricType c = ''TETRAHEDRON''"
    by (simp_all add: examplePiece_fields)
  have n: "int (length (concat (map cert_vertices ?pcs))) = 4"
    by (simp add: examplePiece_fields)
  have a: "sum_list (map agreesCount ?pcs) = 4"
    by (simp add: examplePiece_fields exampleVote_def)
  have c: "\<lceil>(4::rat) * (1 / 2)\<rceil> = 2" by (simp add: ceiling_eq_iff)
  from C10_pieces_not_checked_against_original[OF p os ds]
  have "recoverFromPartition ?pcs ''CUBE'' =
          Inr \<lparr>recovery_success = True,
               recoveredCertificate =
                 \<lparr>geometricType = ''CUBE'', shape = os,
                  cert_vertices = concat (map cert_vertices ?pcs),
                  agreesCount = 4, requiredCount = Num 2, thresholdPercentage = Num (1 / 2),
                  valid = True, proof_text = RecoveredFrom 2,
                  bettiNumbers = Some \<lparr>beta_0 = 1, beta_1 = 0, beta_2 = 0\<rparr>,
                  partitionInfo = Some \<lparr>isPartitioned = False, partitionCount = 1\<rparr>\<rparr>,
               recoveryProof = DualRecoveryProof 2 os ds 4 4 (Num (1 / 2)) True,
               dualMapping = \<lparr>mapping_original = ''CUBE'', mapping_dual = ''OCTAHEDRON'',
                              thresholdMapping = Num 1\<rparr>\<rparr>"
    unfolding Let_def n a t o d using c by simp
  then show ?thesis using os by simp
qed

section \<open>Partition detector: theorems\<close>

lemma bestMatchLoop_Cons:
  "bestMatchLoop pc ((k, t) # rest) (bm, bc) =
     bestMatchLoop pc rest (if k \<le> pc \<and> bc < k then (t, k) else (bm, bc))"
  by (simp add: bestMatchLoop_def)

lemma bestMatchLoop_greatest:
  "bestMatchLoop pc tbl (bm, bc) = (bm', bc') \<Longrightarrow>
     (if \<exists>k\<in>fst ` set tbl. k \<le> pc \<and> bc < k
      then (bc', bm') \<in> set tbl \<and> bc' \<le> pc \<and> bc < bc' \<and>
           (\<forall>k\<in>fst ` set tbl. k \<le> pc \<longrightarrow> k \<le> bc')
      else bm' = bm \<and> bc' = bc)"
proof (induction tbl arbitrary: bm bc)
  case Nil
  then show ?case by (simp add: bestMatchLoop_def)
next
  case (Cons e rest)
  obtain k t where e: "e = (k, t)" by (cases e)
  show ?case
  proof (cases "k \<le> pc \<and> bc < k")
    case True
    then have "bestMatchLoop pc rest (t, k) = (bm', bc')"
      using Cons.prems by (simp add: e bestMatchLoop_Cons)
    from Cons.IH[OF this] True show ?thesis
      by (auto simp: e split: if_splits)
  next
    case False
    then have "(if k \<le> pc \<and> bc < k then (t, k) else (bm, bc)) = (bm, bc)"
      by auto
    then have "bestMatchLoop pc rest (bm, bc) = (bm', bc')"
      using Cons.prems by (simp only: e bestMatchLoop_Cons)
    from Cons.IH[OF this] False show ?thesis
      by (auto simp: e split: if_splits)
  qed
qed

lemma decomposition_tables_checked:
  "\<forall>(t, tbl)\<in>set decompositionMap_entries.
      (\<forall>k\<in>fst ` set tbl. 0 < k) \<and> (\<exists>k\<in>fst ` set tbl. k \<le> 2)"
  by (simp add: decompositionMap_entries_def)

lemma decomposition_table_entry:
  "decompositionMap t = Some tbl \<Longrightarrow> (t, tbl) \<in> set decompositionMap_entries"
  unfolding decompositionMap_def by (rule map_of_SomeD)

lemma catalog_shapes_have_tables:
  "\<forall>(t, s)\<in>set GEOMETRIC_SHAPES_entries. decompositionMap t \<noteq> None"
  by (simp add: GEOMETRIC_SHAPES_entries_def decompositionMap_def decompositionMap_entries_def)

text \<open>
  C7. The claim: the decomposed shape is the table entry with the largest key that is at
  most the piece count, and a piece count above every key of the table falls through to the
  generic rule on \<open>floor(vertices / pieceCount)\<close>. The loop keeps the entry of the largest
  key also when the piece count exceeds every key: 21 pieces of the 600-cell (keys up to 20)
  give the entry of key 20, a point, where the generic rule would give a tetrahedron.
\<close>

theorem C7_counterexample:
  "decompositionMap ''SIX_HUNDRED_CELL'' =
     Some [(1, ''SIX_HUNDRED_CELL''), (2, ''ICOSAHEDRON''), (3, ''DODECAHEDRON''),
           (4, ''OCTAHEDRON''), (5, ''TETRAHEDRON''), (6, ''TRIANGLE''), (10, ''LINE''),
           (20, ''POINT'')] \<and>
   decomposeGeometricType ''SIX_HUNDRED_CELL'' 21 = Inr ''POINT'' \<and>
   getDefaultDecomposition ''SIX_HUNDRED_CELL'' 21 = Inr ''TETRAHEDRON''"
proof -
  have t: "decompositionMap ''SIX_HUNDRED_CELL'' =
     Some [(1, ''SIX_HUNDRED_CELL''), (2, ''ICOSAHEDRON''), (3, ''DODECAHEDRON''),
           (4, ''OCTAHEDRON''), (5, ''TETRAHEDRON''), (6, ''TRIANGLE''), (10, ''LINE''),
           (20, ''POINT'')]"
    by (simp add: decompositionMap_def decompositionMap_entries_def)
  have d: "decomposeGeometricType ''SIX_HUNDRED_CELL'' 21 = Inr ''POINT''"
    by (simp add: decomposeGeometricType_def t bestMatchLoop_def)
  have f: "\<lfloor>(120::rat) / 21\<rfloor> = 5" by (simp add: floor_eq_iff)
  have g: "getDefaultDecomposition ''SIX_HUNDRED_CELL'' 21 = Inr ''TETRAHEDRON''"
    by (simp add: getDefaultDecomposition_def getGeometricShape_def GEOMETRIC_SHAPES_def
        GEOMETRIC_SHAPES_entries_def js_div_def f)
  from t d g show ?thesis by simp
qed

text \<open>
  C7, amended. For every catalog shape there is a decomposition table, and
  \<open>decomposeGeometricType\<close> returns the entry of the largest key that is at most the piece
  count, also when the piece count exceeds every key; it returns the point when no key is at
  most the piece count, which does not happen for two or more pieces. The generic rule is
  used only for an identifier without a table.
\<close>

theorem C7_largest_key_at_most_piece_count:
  assumes "GEOMETRIC_SHAPES original = Some shp"
  shows "\<exists>tbl r. decompositionMap original = Some tbl \<and>
           decomposeGeometricType original pc = Inr r \<and>
           (if \<exists>k\<in>fst ` set tbl. k \<le> pc
            then \<exists>k. (k, r) \<in> set tbl \<and> k \<le> pc \<and> (\<forall>k'\<in>fst ` set tbl. k' \<le> pc \<longrightarrow> k' \<le> k)
            else r = ''POINT'') \<and>
           (2 \<le> pc \<longrightarrow> (\<exists>k\<in>fst ` set tbl. k \<le> pc))"
proof -
  obtain tbl where tbl: "decompositionMap original = Some tbl"
    using catalog_shapes_have_tables catalog_entry[OF assms] by fastforce
  have keys: "\<forall>k\<in>fst ` set tbl. 0 < k" and low: "\<exists>k\<in>fst ` set tbl. k \<le> 2"
    using decomposition_tables_checked decomposition_table_entry[OF tbl] by fastforce+
  obtain r bc where loop: "bestMatchLoop pc tbl (''POINT'', 0) = (r, bc)"
    by (cases "bestMatchLoop pc tbl (''POINT'', 0)")
  have res: "decomposeGeometricType original pc = Inr r"
    by (simp add: decomposeGeometricType_def tbl loop)
  have same: "(\<exists>k\<in>fst ` set tbl. k \<le> pc \<and> 0 < k) = (\<exists>k\<in>fst ` set tbl. k \<le> pc)"
    using keys by blast
  from bestMatchLoop_greatest[OF loop]
  have sel: "if \<exists>k\<in>fst ` set tbl. k \<le> pc
        then \<exists>k. (k, r) \<in> set tbl \<and> k \<le> pc \<and> (\<forall>k'\<in>fst ` set tbl. k' \<le> pc \<longrightarrow> k' \<le> k)
        else r = ''POINT''"
    unfolding same by (auto split: if_splits)
  have two: "2 \<le> pc \<longrightarrow> (\<exists>k\<in>fst ` set tbl. k \<le> pc)"
  proof
    assume p: "2 \<le> pc"
    from low obtain k where k: "k \<in> fst ` set tbl" "k \<le> 2" by blast
    then have "k \<le> pc" using p by linarith
    then show "\<exists>k\<in>fst ` set tbl. k \<le> pc" using k(1) by blast
  qed
  from tbl res sel two show ?thesis by blast
qed

theorem C7_witness:
  "\<exists>shp. GEOMETRIC_SHAPES ''CUBE'' = Some shp \<and>
     decompositionMap ''CUBE'' = Some [(2, ''TETRAHEDRON''), (4, ''TRIANGLE''), (8, ''POINT'')] \<and>
     decomposeGeometricType ''CUBE'' 3 = Inr ''TETRAHEDRON'' \<and>
     decomposeGeometricType ''CUBE'' 9 = Inr ''POINT'' \<and>
     decomposeGeometricType ''CUBE'' 1 = Inr ''POINT''"
proof -
  obtain shp where s: "GEOMETRIC_SHAPES ''CUBE'' = Some shp"
    by (simp add: GEOMETRIC_SHAPES_def GEOMETRIC_SHAPES_entries_def)
  have t: "decompositionMap ''CUBE'' = Some [(2, ''TETRAHEDRON''), (4, ''TRIANGLE''), (8, ''POINT'')]"
    by (simp add: decompositionMap_def decompositionMap_entries_def)
  from C7_largest_key_at_most_piece_count[OF s, of 3]
  have a: "decomposeGeometricType ''CUBE'' 3 = Inr ''TETRAHEDRON''"
    unfolding t by auto
  from C7_largest_key_at_most_piece_count[OF s, of 9]
  have b: "decomposeGeometricType ''CUBE'' 9 = Inr ''POINT''"
    unfolding t by auto
  from C7_largest_key_at_most_piece_count[OF s, of 1]
  have c: "decomposeGeometricType ''CUBE'' 1 = Inr ''POINT''"
    unfolding t by auto
  from s t a b c show ?thesis by blast
qed

section \<open>Connectivity of the consensus graph\<close>

lemma fold_setVertexIndex_other:
  "k \<notin> (\<lambda>p. vertex_id (fst p)) ` set ps \<Longrightarrow> fold setVertexIndex ps m k = m k"
  by (induction ps arbitrary: m) (auto simp: setVertexIndex_def)

lemma fold_setVertexIndex_distinct:
  "distinct (map (\<lambda>p. vertex_id (fst p)) ps) \<Longrightarrow> (v, i) \<in> set ps \<Longrightarrow>
     fold setVertexIndex ps m (vertex_id v) = Some i"
proof (induction ps arbitrary: m)
  case Nil
  then show ?case by simp
next
  case (Cons p ps)
  show ?case
  proof (cases "p = (v, i)")
    case True
    have "vertex_id v \<notin> (\<lambda>p. vertex_id (fst p)) ` set ps"
      using Cons.prems(1) True by auto
    then have "fold setVertexIndex ps (setVertexIndex p m) (vertex_id v) =
               setVertexIndex p m (vertex_id v)"
      by (rule fold_setVertexIndex_other)
    also have "\<dots> = Some i" by (simp add: True setVertexIndex_def)
    finally show ?thesis by simp
  next
    case False
    then have "(v, i) \<in> set ps" using Cons.prems(2) by simp
    moreover have "distinct (map (\<lambda>p. vertex_id (fst p)) ps)" using Cons.prems(1) by simp
    ultimately show ?thesis using Cons.IH by simp
  qed
qed

lemma vertexIndexMap_distinct:
  assumes "distinct (map vertex_id vs)" "i < length vs"
  shows "vertexIndexMap vs (vertex_id (vs ! i)) = Some i"
proof -
  have "map (\<lambda>p. vertex_id (fst p)) (zip vs [0..<length vs]) = map vertex_id vs"
    using map_fst_zip[of vs "[0..<length vs]"] map_map[of vertex_id fst "zip vs [0..<length vs]"]
    by (simp add: comp_def)
  then have d: "distinct (map (\<lambda>p. vertex_id (fst p)) (zip vs [0..<length vs]))"
    using assms(1) by simp
  have m: "(vs ! i, i) \<in> set (zip vs [0..<length vs])"
    using assms(2) by (auto simp: in_set_zip)
  show ?thesis unfolding vertexIndexMap_def
    using fold_setVertexIndex_distinct[OF d m] .
qed

lemma markEdge_entries:
  assumes "length m = n" "\<forall>a<n. length (m ! a) = n"
      and "idx (from_id e) = Some i" "idx (to_id e) = Some j" "i < n" "j < n"
      and "a < n" "b < n"
  shows "markEdge idx e m ! a ! b =
           (if (a = i \<and> b = j) \<or> (a = j \<and> b = i) then 1 else m ! a ! b)"
  using assms by (auto simp: markEdge_def Let_def nth_list_update)

lemma markEdge_fold_entries:
  assumes "\<forall>e\<in>set es. \<exists>i j. i < n \<and> j < n \<and> idx (from_id e) = Some i \<and>
                              idx (to_id e) = Some j \<and> edge_id e = (i, j)"
  shows "length m = n \<Longrightarrow> \<forall>a<n. length (m ! a) = n \<Longrightarrow> a < n \<Longrightarrow> b < n \<Longrightarrow>
         fold (markEdge idx) es m ! a ! b =
           (if \<exists>e\<in>set es. edge_id e = (a, b) \<or> edge_id e = (b, a) then 1 else m ! a ! b)"
  using assms
proof (induction es arbitrary: m)
  case Nil
  then show ?case by simp
next
  case (Cons e es)
  from Cons.prems(5) obtain i j where ij: "i < n" "j < n" "idx (from_id e) = Some i"
    "idx (to_id e) = Some j" "edge_id e = (i, j)" by auto
  from markEdge_square[OF Cons.prems(1,2), of idx e]
  have sq: "length (markEdge idx e m) = n" "\<forall>a<n. length (markEdge idx e m ! a) = n" by blast+
  have rest: "\<forall>e\<in>set es. \<exists>i j. i < n \<and> j < n \<and> idx (from_id e) = Some i \<and>
                              idx (to_id e) = Some j \<and> edge_id e = (i, j)"
    using Cons.prems(5) by simp
  have "fold (markEdge idx) (e # es) m ! a ! b = fold (markEdge idx) es (markEdge idx e m) ! a ! b"
    by simp
  also have "\<dots> = (if \<exists>e\<in>set es. edge_id e = (a, b) \<or> edge_id e = (b, a) then 1
                    else markEdge idx e m ! a ! b)"
    using Cons.IH[OF sq Cons.prems(3,4) rest] .
  also have "markEdge idx e m ! a ! b =
           (if (a = i \<and> b = j) \<or> (a = j \<and> b = i) then 1 else m ! a ! b)"
    using markEdge_entries[OF Cons.prems(1,2) ij(3,4,1,2) Cons.prems(3,4)] .
  finally show ?case using ij(5) by auto
qed

lemma buildConsensusEdges_member:
  "e \<in> set (buildConsensusEdges cs) \<longleftrightarrow>
     (\<exists>i j. i < j \<and> j < length cs \<and> agrees (cs ! i) = agrees (cs ! j) \<and>
            e = \<lparr>edge_id = (i, j), from_id = dv_id (cs ! i), to_id = dv_id (cs ! j)\<rparr>)"
  unfolding buildConsensusEdges_def Let_def
  by (auto split: if_splits)


lemma consensus_adjacency:
  assumes d: "distinct (map dv_id cs)" and a: "a < length cs" and b: "b < length cs"
  shows "buildAdjacencyMatrix (convertToVertices cs) (buildConsensusEdges cs) ! a ! b =
           (if a \<noteq> b \<and> agrees (cs ! a) = agrees (cs ! b) then 1 else 0)"
proof -
  let ?vs = "convertToVertices cs"
  let ?es = "buildConsensusEdges cs"
  let ?n = "length cs"
  let ?m0 = "replicate ?n (replicate ?n (0::nat))"
  have len: "length ?vs = ?n" by (simp add: convertToVertices_def)
  have ids: "map vertex_id ?vs = map dv_id cs" by (simp add: convertToVertices_def)
  have idx: "\<And>i. i < ?n \<Longrightarrow> vertexIndexMap ?vs (dv_id (cs ! i)) = Some i"
  proof -
    fix i assume i: "i < ?n"
    have "vertex_id (?vs ! i) = dv_id (cs ! i)" using i by (simp add: convertToVertices_def)
    then show "vertexIndexMap ?vs (dv_id (cs ! i)) = Some i"
      using vertexIndexMap_distinct[of ?vs i] d ids i len by simp
  qed
  have es: "\<forall>e\<in>set ?es. \<exists>i j. i < ?n \<and> j < ?n \<and> vertexIndexMap ?vs (from_id e) = Some i \<and>
                              vertexIndexMap ?vs (to_id e) = Some j \<and> edge_id e = (i, j)"
  proof
    fix e assume "e \<in> set ?es"
    then obtain i j where ij: "i < j" "j < ?n"
      "e = \<lparr>edge_id = (i, j), from_id = dv_id (cs ! i), to_id = dv_id (cs ! j)\<rparr>"
      unfolding buildConsensusEdges_member by blast
    have "i < ?n" using ij(1,2) by simp
    then show "\<exists>i j. i < ?n \<and> j < ?n \<and> vertexIndexMap ?vs (from_id e) = Some i \<and>
                              vertexIndexMap ?vs (to_id e) = Some j \<and> edge_id e = (i, j)"
      using ij idx by auto
  qed
  have m0: "length ?m0 = ?n" "\<forall>a<?n. length (?m0 ! a) = ?n" by simp_all
  have "buildAdjacencyMatrix ?vs ?es ! a ! b = fold (markEdge (vertexIndexMap ?vs)) ?es ?m0 ! a ! b"
    by (simp add: buildAdjacencyMatrix_def len Let_def)
  also have "\<dots> = (if \<exists>e\<in>set ?es. edge_id e = (a, b) \<or> edge_id e = (b, a) then 1 else ?m0 ! a ! b)"
    using markEdge_fold_entries[OF es m0 a b] .
  also have "?m0 ! a ! b = 0" using a b by simp
  also have "(\<exists>e\<in>set ?es. edge_id e = (a, b) \<or> edge_id e = (b, a)) \<longleftrightarrow>
             (a \<noteq> b \<and> agrees (cs ! a) = agrees (cs ! b))"
  proof
    assume "\<exists>e\<in>set ?es. edge_id e = (a, b) \<or> edge_id e = (b, a)"
    then obtain e where e: "e \<in> set ?es" "edge_id e = (a, b) \<or> edge_id e = (b, a)" by blast
    from e(1) obtain i j where ij: "i < j" "j < ?n" "agrees (cs ! i) = agrees (cs ! j)"
      "e = \<lparr>edge_id = (i, j), from_id = dv_id (cs ! i), to_id = dv_id (cs ! j)\<rparr>"
      unfolding buildConsensusEdges_member by blast
    from e(2) ij show "a \<noteq> b \<and> agrees (cs ! a) = agrees (cs ! b)" by auto
  next
    assume r: "a \<noteq> b \<and> agrees (cs ! a) = agrees (cs ! b)"
    show "\<exists>e\<in>set ?es. edge_id e = (a, b) \<or> edge_id e = (b, a)"
    proof (cases "a < b")
      case True
      then have "\<lparr>edge_id = (a, b), from_id = dv_id (cs ! a), to_id = dv_id (cs ! b)\<rparr> \<in> set ?es"
        unfolding buildConsensusEdges_member using r b by blast
      then show ?thesis by force
    next
      case False
      then have "b < a" using r by simp
      then have "\<lparr>edge_id = (b, a), from_id = dv_id (cs ! b), to_id = dv_id (cs ! a)\<rparr> \<in> set ?es"
        unfolding buildConsensusEdges_member using r a by auto
      then show ?thesis by force
    qed
  qed
  finally show ?thesis .
qed

text \<open>Counting components of a graph that is a disjoint union of cliques, one clique per
  label: after the first \<open>k\<close> vertices the visited vertices are those that share a label
  with one of them, and the counter is the number of labels seen.\<close>

lemma components_of_cliques:
  assumes sq: "\<forall>a<n. length (adj ! a) = n"
      and cl: "\<forall>a<n. \<forall>b<n. (adj ! a ! b = 1) = (a \<noteq> b \<and> lab a = lab b)"
  shows "k \<le> n \<Longrightarrow>
         \<exists>vis. fold (countComponent n adj) [0..<k] (Some (replicate n False, 0)) =
                 Some (vis, card (lab ` {..<k})) \<and>
               length vis = n \<and> (\<forall>j<n. vis ! j \<longleftrightarrow> (\<exists>i<k. lab i = lab j))"
proof (induction k)
  case 0
  then show ?case by simp
next
  case (Suc k)
  then have k: "k < n" by simp
  from Suc.IH k obtain vis where
    vis: "fold (countComponent n adj) [0..<k] (Some (replicate n False, 0)) =
            Some (vis, card (lab ` {..<k}))"
      "length vis = n" "\<forall>j<n. vis ! j \<longleftrightarrow> (\<exists>i<k. lab i = lab j)"
    by auto
  have unfold: "fold (countComponent n adj) [0..<Suc k] (Some (replicate n False, 0)) =
                countComponent n adj k (Some (vis, card (lab ` {..<k})))"
    using vis(1) by simp
  have img: "lab ` {..<Suc k} = insert (lab k) (lab ` {..<k})"
    by (simp add: lessThan_Suc)
  show ?case
  proof (cases "vis ! k")
    case True
    then obtain i where i: "i < k" "lab i = lab k" using vis(3) k by blast
    then have "lab k \<in> lab ` {..<k}" by (metis imageI lessThan_iff)
    then have c: "card (lab ` {..<Suc k}) = card (lab ` {..<k})"
      unfolding img by (simp add: insert_absorb)
    have "countComponent n adj k (Some (vis, card (lab ` {..<k}))) =
            Some (vis, card (lab ` {..<k}))"
      using True by (simp add: countComponent_def)
    moreover have "\<forall>j<n. vis ! j \<longleftrightarrow> (\<exists>i<Suc k. lab i = lab j)"
      using vis(3) i by (metis less_Suc_eq)
    ultimately show ?thesis using unfold c vis(2) by auto
  next
    case False
    then have new: "lab k \<notin> lab ` {..<k}" using vis(3) k by auto
    have c: "card (lab ` {..<Suc k}) = card (lab ` {..<k}) + 1"
      unfolding img using new by simp
    have "card {i. i < n \<and> \<not> vis ! i} \<le> card {i. i < n}"
      by (intro card_mono) auto
    then have cb: "card {i. i < n \<and> \<not> vis ! i} \<le> n" by simp
    have R_adj: "\<forall>a<n. \<forall>b<n. adj ! a ! b = 1 \<longrightarrow> lab a = lab b" using cl by blast
    have R_trans: "\<forall>a b c. lab a = lab b \<longrightarrow> lab b = lab c \<longrightarrow> lab a = lab c" by simp
    from dfs_general[where R = "\<lambda>a b. lab a = lab b", OF sq R_adj R_trans k vis(2) False cb]
    obtain res where res: "dfs n k adj vis = Some res" "length res = n"
      "\<forall>i<n. vis ! i \<longrightarrow> res ! i" "res ! k"
      "\<forall>j<n. adj ! k ! j = 1 \<longrightarrow> res ! j"
      "\<forall>j<n. res ! j \<longrightarrow> vis ! j \<or> j = k \<or> lab k = lab j"
      by blast
    have step: "countComponent n adj k (Some (vis, card (lab ` {..<k}))) =
            Some (res, card (lab ` {..<k}) + 1)"
      using False res(1) by (simp add: countComponent_def)
    have "\<forall>j<n. res ! j \<longleftrightarrow> (\<exists>i<Suc k. lab i = lab j)"
    proof (intro allI impI iffI)
      fix j assume j: "j < n" and r: "res ! j"
      from res(6) j r have "vis ! j \<or> j = k \<or> lab k = lab j" by blast
      then show "\<exists>i<Suc k. lab i = lab j"
        using vis(3) j by (metis less_Suc_eq lessI)
    next
      fix j assume j: "j < n" and e: "\<exists>i<Suc k. lab i = lab j"
      then obtain i where i: "i < Suc k" "lab i = lab j" by blast
      show "res ! j"
      proof (cases "i < k")
        case True
        then have "vis ! j" using vis(3) j i(2) by blast
        then show ?thesis using res(3) j by blast
      next
        case False
        then have ik: "i = k" using i(1) by simp
        show ?thesis
        proof (cases "j = k")
          case True
          then show ?thesis using res(4) by simp
        next
          case False
          then have "adj ! k ! j = 1" using cl k j i(2) ik by auto
          then show ?thesis using res(5) j by blast
        qed
      qed
    qed
    then show ?thesis using unfold step c res(2) by auto
  qed
qed

lemma components_count_cliques:
  assumes sq: "\<forall>a<length vs. length (adj ! a) = length vs"
      and cl: "\<forall>a<length vs. \<forall>b<length vs. (adj ! a ! b = 1) = (a \<noteq> b \<and> lab a = lab b)"
  shows "calculateConnectedComponents vs adj = Some (card (lab ` {..<length vs}))"
proof -
  from components_of_cliques[OF sq cl, of "length vs"]
  obtain vis where "fold (countComponent (length vs) adj) [0..<length vs]
                      (Some (replicate (length vs) False, 0)) =
                    Some (vis, card (lab ` {..<length vs}))"
    by auto
  then show ?thesis by (simp add: calculateConnectedComponents_def Let_def)
qed

lemma card_agreement_values:
  assumes "cs \<noteq> []"
  shows "card (agrees ` set cs) =
           (if (\<forall>v\<in>set cs. agrees v) \<or> (\<forall>v\<in>set cs. \<not> agrees v) then 1 else 2)"
proof (cases "(\<forall>v\<in>set cs. agrees v) \<or> (\<forall>v\<in>set cs. \<not> agrees v)")
  case True
  obtain x where x: "x \<in> set cs" using assms by (cases cs) auto
  have "agrees ` set cs = {agrees x}" using True x by auto
  then show ?thesis using True by simp
next
  case False
  then have "True \<in> agrees ` set cs" "False \<in> agrees ` set cs" by force+
  then have "agrees ` set cs = {True, False}" by auto
  then show ?thesis using False by simp
qed

lemma consensus_beta_0:
  assumes "criteria \<noteq> []" "distinct (map dv_id criteria)"
  shows "\<exists>b1. calculateBettiNumbers (convertToVertices criteria) (buildConsensusEdges criteria) =
           Some \<lparr>beta_0 = (if (\<forall>v\<in>set criteria. agrees v) \<or> (\<forall>v\<in>set criteria. \<not> agrees v)
                           then 1 else 2),
                 beta_1 = b1, beta_2 = 0\<rparr>"
proof -
  let ?vs = "convertToVertices criteria"
  let ?es = "buildConsensusEdges criteria"
  let ?adj = "buildAdjacencyMatrix ?vs ?es"
  let ?lab = "\<lambda>i. agrees (criteria ! i)"
  have len: "length ?vs = length criteria" by (simp add: convertToVertices_def)
  have sq: "\<forall>a<length ?vs. length (?adj ! a) = length ?vs"
    using buildAdjacencyMatrix_square .
  have cl: "\<forall>a<length ?vs. \<forall>b<length ?vs. (?adj ! a ! b = 1) = (a \<noteq> b \<and> ?lab a = ?lab b)"
    using consensus_adjacency[OF assms(2)] len by simp
  have "?lab ` {..<length ?vs} = agrees ` set criteria"
    unfolding len by (auto simp: set_conv_nth)
  then have comp: "calculateConnectedComponents ?vs ?adj = Some (card (agrees ` set criteria))"
    using components_count_cliques[OF sq cl] by simp
  have ne: "length ?vs \<noteq> 0" using assms(1) len by simp
  have c: "int (card (agrees ` set criteria)) =
           (if (\<forall>v\<in>set criteria. agrees v) \<or> (\<forall>v\<in>set criteria. \<not> agrees v) then 1 else 2)"
    using card_agreement_values[OF assms(1)] by simp
  show ?thesis
    using ne c by (simp add: calculateBettiNumbers_def calculateCycles_def calculateVoids_def
        comp Let_def)
qed

text \<open>
  C5. For a non-empty vote list with pairwise distinct identifiers, the consensus graph has
  an edge between two votes exactly when their agreement flags are equal, and its first
  Betti number is 1 when all votes carry the same flag and 2 when both flags occur; it is
  never more than 2.
\<close>

theorem C5_consensus_graph_components:
  assumes "criteria \<noteq> []" "distinct (map dv_id criteria)"
  shows "(\<forall>i j. i < j \<and> j < length criteria \<longrightarrow>
            (\<lparr>edge_id = (i, j), from_id = dv_id (criteria ! i), to_id = dv_id (criteria ! j)\<rparr>
               \<in> set (buildConsensusEdges criteria)
             \<longleftrightarrow> agrees (criteria ! i) = agrees (criteria ! j))) \<and>
         (\<exists>b. calculateBettiNumbers (convertToVertices criteria) (buildConsensusEdges criteria)
                 = Some b \<and>
              beta_0 b = (if (\<forall>v\<in>set criteria. agrees v) \<or> (\<forall>v\<in>set criteria. \<not> agrees v)
                          then 1 else 2) \<and>
              beta_0 b \<le> 2)"
proof
  show "\<forall>i j. i < j \<and> j < length criteria \<longrightarrow>
            (\<lparr>edge_id = (i, j), from_id = dv_id (criteria ! i), to_id = dv_id (criteria ! j)\<rparr>
               \<in> set (buildConsensusEdges criteria)
             \<longleftrightarrow> agrees (criteria ! i) = agrees (criteria ! j))"
    unfolding buildConsensusEdges_member by auto
next
  from consensus_beta_0[OF assms]
  obtain b1 where
    "calculateBettiNumbers (convertToVertices criteria) (buildConsensusEdges criteria) =
       Some \<lparr>beta_0 = (if (\<forall>v\<in>set criteria. agrees v) \<or> (\<forall>v\<in>set criteria. \<not> agrees v)
                       then 1 else 2),
             beta_1 = b1, beta_2 = 0\<rparr>"
    by blast
  then show "\<exists>b. calculateBettiNumbers (convertToVertices criteria) (buildConsensusEdges criteria)
                 = Some b \<and>
              beta_0 b = (if (\<forall>v\<in>set criteria. agrees v) \<or> (\<forall>v\<in>set criteria. \<not> agrees v)
                          then 1 else 2) \<and>
              beta_0 b \<le> 2"
    by simp
qed

theorem C5_witness:
  "(\<exists>b. calculateBettiNumbers
          (convertToVertices
             [exampleVote ''a'' True, exampleVote ''b'' True, exampleVote ''c'' True,
              exampleVote ''d'' False, exampleVote ''e'' False, exampleVote ''f'' False])
          (buildConsensusEdges
             [exampleVote ''a'' True, exampleVote ''b'' True, exampleVote ''c'' True,
              exampleVote ''d'' False, exampleVote ''e'' False, exampleVote ''f'' False])
        = Some b \<and> beta_0 b = 2) \<and>
   (\<exists>b. calculateBettiNumbers
          (convertToVertices
             [exampleVote ''a'' True, exampleVote ''b'' True, exampleVote ''c'' True,
              exampleVote ''d'' True])
          (buildConsensusEdges
             [exampleVote ''a'' True, exampleVote ''b'' True, exampleVote ''c'' True,
              exampleVote ''d'' True])
        = Some b \<and> beta_0 b = 1)"
proof -
  let ?six = "[exampleVote ''a'' True, exampleVote ''b'' True, exampleVote ''c'' True,
               exampleVote ''d'' False, exampleVote ''e'' False, exampleVote ''f'' False]"
  let ?four = "[exampleVote ''a'' True, exampleVote ''b'' True, exampleVote ''c'' True,
                exampleVote ''d'' True]"
  have s: "?six \<noteq> []" "distinct (map dv_id ?six)"
    by (simp_all add: exampleVote_def)
  have f: "?four \<noteq> []" "distinct (map dv_id ?four)"
    by (simp_all add: exampleVote_def)
  have s2: "\<not> ((\<forall>v\<in>set ?six. agrees v) \<or> (\<forall>v\<in>set ?six. \<not> agrees v))"
    by (simp add: exampleVote_def)
  have f1: "(\<forall>v\<in>set ?four. agrees v) \<or> (\<forall>v\<in>set ?four. \<not> agrees v)"
    by (simp add: exampleVote_def)
  from C5_consensus_graph_components[OF s] s2
  have a: "\<exists>b. calculateBettiNumbers (convertToVertices ?six) (buildConsensusEdges ?six) = Some b
             \<and> beta_0 b = 2"
    by auto
  from C5_consensus_graph_components[OF f] f1
  have b: "\<exists>b. calculateBettiNumbers (convertToVertices ?four) (buildConsensusEdges ?four) = Some b
             \<and> beta_0 b = 1"
    by auto
  from a b show ?thesis by blast
qed

end
